theory Spec2Isabelle
  imports Complex_Main "HOL-Library.Sublist" "HOL-Library.AList"
begin

section \<open>Python values used by the script\<close>

text \<open>
  The script \<^verbatim>\<open>playwright_prism_retailer_point.py\<close> handles three kinds of
  values: strings, string-keyed dictionaries and lists of them. A Python \<^verbatim>\<open>str\<close>
  is modelled as a \<^typ>\<open>string\<close>; the text the script reads (dropdown labels, table
  cells, pagination labels) is taken to be ASCII, and on ASCII text the functions below are
  Python's \<^verbatim>\<open>str.lower\<close>, \<^verbatim>\<open>str.strip\<close>, \<^verbatim>\<open>str.isdigit\<close>,
  \<^verbatim>\<open>int\<close> and the substring test \<^verbatim>\<open>a in b\<close>. A Python \<^verbatim>\<open>dict\<close>
  with string keys and string values is an association list in insertion order (keys
  distinct), so that iteration order and \<^verbatim>\<open>str(d)\<close> are determined by the model.
\<close>

type_synonym pydict = "(string \<times> string) list"

definition dict_get :: "pydict \<Rightarrow> string \<Rightarrow> string \<Rightarrow> string" where
  "dict_get d k dflt = (case map_of d k of None \<Rightarrow> dflt | Some v \<Rightarrow> v)"

definition upper_chars :: string where
  "upper_chars = ''ABCDEFGHIJKLMNOPQRSTUVWXYZ''"

definition lower_chars :: string where
  "lower_chars = ''abcdefghijklmnopqrstuvwxyz''"

definition lower_char :: "char \<Rightarrow> char" where
  "lower_char c = (case map_of (zip upper_chars lower_chars) c of None \<Rightarrow> c | Some l \<Rightarrow> l)"

definition py_lower :: "string \<Rightarrow> string" where
  "py_lower s = map lower_char s"

text \<open>The ASCII characters for which \<^verbatim>\<open>str.isspace\<close> holds; \<^verbatim>\<open>strip()\<close> removes them at both ends.\<close>

definition whitespace :: "char list" where
  "whitespace = [CHR '' '', CHR 0x09, CHR 0x0A, CHR 0x0B, CHR 0x0C, CHR 0x0D,
                 CHR 0x1C, CHR 0x1D, CHR 0x1E, CHR 0x1F]"

definition is_space :: "char \<Rightarrow> bool" where
  "is_space c = (c \<in> set whitespace)"

definition py_strip :: "string \<Rightarrow> string" where
  "py_strip s = rev (dropWhile is_space (rev (dropWhile is_space s)))"

text \<open>\<^verbatim>\<open>sub in s\<close> on strings: \<^verbatim>\<open>sub\<close> occurs in \<^verbatim>\<open>s\<close> as a contiguous block.\<close>

fun py_in :: "string \<Rightarrow> string \<Rightarrow> bool" where
  "py_in sub [] = (sub = [])"
| "py_in sub (c # cs) = (prefix sub (c # cs) \<or> py_in sub cs)"

text \<open>
  A Python number as the report holds it: the literal \<^verbatim>\<open>0\<close> is an \<^verbatim>\<open>int\<close>,
  the quotient \<^verbatim>\<open>compliant_count / len(data) * 100\<close> is a \<^verbatim>\<open>float\<close>. A float
  is modelled by the rational number it stands for, and the division and the multiplication
  are the exact ones: the rounding of the two float operations is left out.
\<close>

datatype pynum = PyInt int | PyFloat rat


section \<open>The compliance verifier: \<^verbatim>\<open>verify_filters\<close>\<close>

record compliance =
  compliant :: nat
  total_count :: nat
  percentage :: pynum

record invalid_record =
  the_record :: pydict
  issues :: "string list"

record verification_result =
  total_records :: nat
  valid_records :: nat
  invalid_records :: "invalid_record list"
  filter_compliance :: "(string \<times> compliance) list"

definition filter_mapping :: pydict where
  "filter_mapping = [(''region'', ''region''), (''area'', ''area''),
     (''distributor'', ''distributor''), (''territory'', ''territory''), (''point'', ''point'')]"

text \<open>The f-string \<^verbatim>\<open>f"{filter_key}: expected '{filter_value}', got '{record_value}'"\<close>.\<close>

definition issue_message :: "string \<Rightarrow> string \<Rightarrow> string \<Rightarrow> string" where
  "issue_message filter_key filter_value record_value =
     filter_key @ '': expected '' @ [CHR 0x27] @ filter_value @ [CHR 0x27] @ '', got '' @
     [CHR 0x27] @ record_value @ [CHR 0x27]"

text \<open>
  One pass of the inner loop \<^verbatim>\<open>for filter_key, filter_value in filters.items()\<close>;
  the state is the pair \<^verbatim>\<open>(is_valid, record_issues)\<close>.
\<close>

definition check_filter :: "pydict \<Rightarrow> string \<times> string \<Rightarrow> bool \<times> string list \<Rightarrow> bool \<times> string list" where
  "check_filter record kv st =
     (case kv of (filter_key, filter_value) \<Rightarrow>
        (case map_of filter_mapping filter_key of
           None \<Rightarrow> st
         | Some record_field \<Rightarrow>
             (let record_value = py_strip (dict_get record record_field '''') in
              if \<not> py_in (py_lower filter_value) (py_lower record_value)
              then (False, snd st @ [issue_message filter_key filter_value record_value])
              else st)))"

definition check_record :: "pydict \<Rightarrow> pydict \<Rightarrow> bool \<times> string list" where
  "check_record filters record = fold (check_filter record) filters (True, [])"

text \<open>One pass of the outer loop \<^verbatim>\<open>for record in data\<close>.\<close>

definition record_step ::
  "pydict \<Rightarrow> pydict \<Rightarrow> verification_result \<Rightarrow> verification_result" where
  "record_step filters record vr =
     (case check_record filters record of
        (is_valid, record_issues) \<Rightarrow>
          if is_valid then vr\<lparr>valid_records := valid_records vr + 1\<rparr>
          else vr\<lparr>invalid_records := invalid_records vr @
                 [\<lparr>the_record = record, issues = record_issues\<rparr>]\<rparr>)"

text \<open>
  One pass of the loop \<^verbatim>\<open>for filter_key in filters.keys()\<close>. The lookup
  \<^verbatim>\<open>filters[filter_key]\<close> cannot raise, the key coming from the dictionary itself;
  the model returns the state unchanged in that unreachable branch.
\<close>

definition compliance_step ::
  "pydict list \<Rightarrow> pydict \<Rightarrow> string \<Rightarrow>
   verification_result \<Rightarrow> verification_result" where
  "compliance_step data filters filter_key vr =
     (case map_of filter_mapping filter_key of
        None \<Rightarrow> vr
      | Some record_field \<Rightarrow>
          (case map_of filters filter_key of
             None \<Rightarrow> vr
           | Some filter_value \<Rightarrow>
               (let compliant_count = length (filter (\<lambda>record.
                      py_in (py_lower filter_value) (py_lower (dict_get record record_field ''''))) data)
                in vr\<lparr>filter_compliance := AList.update filter_key
                      \<lparr>compliant = compliant_count, total_count = length data,
                       percentage = (if data \<noteq> [] then PyFloat (of_nat compliant_count / of_nat (length data) * 100)
                                     else PyInt 0)\<rparr>
                      (filter_compliance vr)\<rparr>)))"

definition verify_filters ::
  "pydict list \<Rightarrow> pydict \<Rightarrow> verification_result" where
  "verify_filters data filters =
     (let verification_result =
            \<lparr>total_records = length data, valid_records = 0, invalid_records = [],
             filter_compliance = []\<rparr>;
          verification_result = fold (record_step filters) data verification_result
      in fold (compliance_step data filters) (map fst filters) verification_result)"

text \<open>The five filter dimensions, in dependency order.\<close>

definition dimensions :: "string list" where
  "dimensions = [''region'', ''area'', ''distributor'', ''territory'', ''point'']"

text \<open>The dictionary literal of a complete chain (lines 500 to 506).\<close>

definition mk_chain :: "string \<Rightarrow> string \<Rightarrow> string \<Rightarrow> string \<Rightarrow> string \<Rightarrow> pydict" where
  "mk_chain region area distributor territory point =
     [(''region'', region), (''area'', area), (''distributor'', distributor),
      (''territory'', territory), (''point'', point)]"

text \<open>The substring rule of the per-record loop, on the stripped field value.\<close>

definition passes :: "pydict \<Rightarrow> string \<times> string \<Rightarrow> bool" where
  "passes record kv =
     sublist (py_lower (snd kv)) (py_lower (py_strip (dict_get record (fst kv) '''')))"

definition issues_of :: "pydict \<Rightarrow> pydict \<Rightarrow> string list" where
  "issues_of filters record =
     map (\<lambda>kv. issue_message (fst kv) (snd kv) (py_strip (dict_get record (fst kv) '''')))
       (filter (\<lambda>kv. fst kv \<in> set dimensions \<and> \<not> passes record kv) filters)"

definition record_valid :: "pydict \<Rightarrow> pydict \<Rightarrow> bool" where
  "record_valid filters record =
     list_all (\<lambda>kv. fst kv \<notin> set dimensions \<or> passes record kv) filters"


text \<open>The dictionary literal that \<^verbatim>\<open>get_table_data\<close> builds for one table row (lines 190 to 198).\<close>

definition mk_row ::
  "string \<Rightarrow> string \<Rightarrow> string \<Rightarrow> string \<Rightarrow> string \<Rightarrow> string \<Rightarrow> string \<Rightarrow> pydict" where
  "mk_row name code region area distributor territory point =
     [(''name'', name), (''code'', code), (''region'', region), (''area'', area),
      (''distributor'', distributor), (''territory'', territory), (''point'', point)]"

text \<open>A chain and two table rows for the examples: the first row complies, the second does not.\<close>

definition example_chain :: pydict where
  "example_chain = mk_chain ''Dhaka'' ''Gulshan'' ''ABC Traders'' ''T1'' ''P1''"

definition example_row_ok :: pydict where
  "example_row_ok =
     mk_row ''Shop A'' ''R001'' ''Dhaka North'' ''Gulshan'' ''ABC Traders Ltd'' ''T1'' ''P1''"

definition example_row_bad :: pydict where
  "example_row_bad =
     mk_row ''Shop B'' ''R002'' ''Chittagong'' ''Gulshan'' ''ABC Traders Ltd'' ''T1'' ''P1''"


section \<open>The page as the script drives it\<close>

text \<open>
  The browser page is a state of an arbitrary type \<open>'s\<close>; what Playwright does to it
  is not part of the script and is a parameter: a record of operations on the state.
  An element handle the script reads is a snapshot of the two calls
  the script makes on it, \<^verbatim>\<open>is_visible()\<close> and \<^verbatim>\<open>inner_text()\<close>; \<open>None\<close> means
  that the call raises.
\<close>

record elem =
  is_visible :: "bool option"
  inner_text :: "string option"

text \<open>
  The operations behind the dropdown helpers.
  \<^item> \<open>clear_all_filters\<close> and \<open>wait_for_loading\<close> are the script's functions of
    these names: they return nothing and catch every exception, so they are state
    transformers.
  \<^item> \<open>open_dropdown name\<close> is the common start of \<^verbatim>\<open>get_dropdown_options\<close> and
    \<^verbatim>\<open>select_dropdown_option\<close>: click the textbox \<open>name\<close>, sleep, wait for a visible
    option, list the visible options; \<open>None\<close> when one of these calls raises.
  \<^item> \<open>close_dropdown\<close> is the closing cascade of \<^verbatim>\<open>get_dropdown_options\<close> (Escape,
    else click the textbox, else click the body), which cannot raise.
  \<^item> \<open>click_option name i\<close> clicks the \<open>i\<close>-th listed option and sleeps; \<open>False\<close>
    when the click raises.
  \<^item> \<open>press_escape\<close> is the guarded Escape of \<^verbatim>\<open>select_dropdown_option\<close>.
\<close>

record 's filter_ui =
  clear_all_filters :: "'s \<Rightarrow> 's"
  wait_for_loading :: "'s \<Rightarrow> 's"
  open_dropdown :: "string \<Rightarrow> 's \<Rightarrow> elem list option \<times> 's"
  close_dropdown :: "'s \<Rightarrow> 's"
  click_option :: "string \<Rightarrow> nat \<Rightarrow> 's \<Rightarrow> bool \<times> 's"
  press_escape :: "'s \<Rightarrow> 's"

subsection \<open>\<^verbatim>\<open>get_dropdown_options\<close>\<close>

text \<open>One pass of \<^verbatim>\<open>for option in options\<close>; the state is \<^verbatim>\<open>option_texts\<close>.\<close>

definition option_step :: "elem \<Rightarrow> string list \<Rightarrow> string list" where
  "option_step option option_texts =
     (case is_visible option of
        Some True \<Rightarrow>
          (case inner_text option of
             Some t \<Rightarrow>
               (let text = py_strip t in
                if text \<noteq> [] \<and> text \<notin> set option_texts then option_texts @ [text]
                else option_texts)
           | None \<Rightarrow> option_texts)
      | _ \<Rightarrow> option_texts)"

definition get_dropdown_options :: "'s filter_ui \<Rightarrow> string \<Rightarrow> 's \<Rightarrow> string list \<times> 's" where
  "get_dropdown_options ui dropdown_name s =
     (case open_dropdown ui dropdown_name s of
        (None, s1) \<Rightarrow> ([], s1)
      | (Some options, s1) \<Rightarrow> (fold option_step options [], close_dropdown ui s1))"

subsection \<open>\<^verbatim>\<open>select_dropdown_option\<close>\<close>

text \<open>
  The loop \<^verbatim>\<open>for option in visible_options\<close> over the options with their positions:
  the first visible option whose stripped text contains \<^verbatim>\<open>option_text\<close> or is contained
  in it is clicked; a call that raises moves on to the next option. When none is left the
  dropdown is closed and the result is \<^verbatim>\<open>False\<close>.
\<close>

fun try_options :: "'s filter_ui \<Rightarrow> string \<Rightarrow> string \<Rightarrow> (nat \<times> elem) list \<Rightarrow> 's \<Rightarrow> bool \<times> 's" where
  "try_options ui dropdown_name option_text [] s = (False, press_escape ui s)"
| "try_options ui dropdown_name option_text ((i, option) # rest) s =
     (case is_visible option of
        Some True \<Rightarrow>
          (case inner_text option of
             Some t \<Rightarrow>
               (let option_inner_text = py_strip t in
                if py_in option_text option_inner_text \<or> py_in option_inner_text option_text
                then (case click_option ui dropdown_name i s of
                        (True, s1) \<Rightarrow> (True, s1)
                      | (False, s1) \<Rightarrow> try_options ui dropdown_name option_text rest s1)
                else try_options ui dropdown_name option_text rest s)
           | None \<Rightarrow> try_options ui dropdown_name option_text rest s)
      | _ \<Rightarrow> try_options ui dropdown_name option_text rest s)"

definition select_dropdown_option :: "'s filter_ui \<Rightarrow> string \<Rightarrow> string \<Rightarrow> 's \<Rightarrow> bool \<times> 's" where
  "select_dropdown_option ui dropdown_name option_text s =
     (case open_dropdown ui dropdown_name s of
        (None, s1) \<Rightarrow> (False, s1)
      | (Some visible_options, s1) \<Rightarrow>
          try_options ui dropdown_name option_text (enumerate 0 visible_options) s1)"

subsection \<open>\<^verbatim>\<open>FILTER_LIMITS\<close> and slicing\<close>

text \<open>
  \<^verbatim>\<open>FILTER_LIMITS\<close> maps each of the five dimension names to \<^verbatim>\<open>None\<close> or an
  integer; it is a parameter of the explorer. \<^verbatim>\<open>xs[:k]\<close> is Python's slice, which
  for a negative \<open>k\<close> drops the last \<open>-k\<close> elements. The guard
  \<^verbatim>\<open>if FILTER_LIMITS[dim]:\<close> holds for an integer other than zero.
\<close>

type_synonym filter_limits = "string \<Rightarrow> int option"

definition py_slice_to :: "'a list \<Rightarrow> int \<Rightarrow> 'a list" where
  "py_slice_to xs k = (if 0 \<le> k then take (nat k) xs else take (nat (int (length xs) + k)) xs)"

definition apply_limit :: "int option \<Rightarrow> 'a list \<Rightarrow> 'a list" where
  "apply_limit limit xs =
     (case limit of
        None \<Rightarrow> xs
      | Some k \<Rightarrow> if k \<noteq> 0 then py_slice_to xs k else xs)"

subsection \<open>\<^verbatim>\<open>build_complete_filter_chains\<close>\<close>

text \<open>
  Every loop body of the explorer starts the same way: \<^verbatim>\<open>clear_all_filters(page)\<close>,
  then for each dropdown of the prefix, in order,
  \<^verbatim>\<open>if not select_dropdown_option(page, name, value): continue\<close> followed by
  \<^verbatim>\<open>wait_for_loading(page)\<close>. \<open>reapply\<close> is that sequence; its first component is
  \<open>False\<close> when a selection failed and the body is left by \<^verbatim>\<open>continue\<close>.
\<close>

fun apply_selections :: "'s filter_ui \<Rightarrow> (string \<times> string) list \<Rightarrow> 's \<Rightarrow> bool \<times> 's" where
  "apply_selections ui [] s = (True, s)"
| "apply_selections ui ((dropdown_name, option_text) # rest) s =
     (case select_dropdown_option ui dropdown_name option_text s of
        (False, s1) \<Rightarrow> (False, s1)
      | (True, s1) \<Rightarrow> apply_selections ui rest (wait_for_loading ui s1))"

definition reapply :: "'s filter_ui \<Rightarrow> (string \<times> string) list \<Rightarrow> 's \<Rightarrow> bool \<times> 's" where
  "reapply ui selections s = apply_selections ui selections (clear_all_filters ui s)"

text \<open>The four nested loops, innermost first; the state is the page and \<^verbatim>\<open>complete_chains\<close>.\<close>

definition territory_body ::
  "'s filter_ui \<Rightarrow> filter_limits \<Rightarrow> string \<Rightarrow> string \<Rightarrow> string \<Rightarrow> string \<Rightarrow>
   's \<times> pydict list \<Rightarrow> 's \<times> pydict list" where
  "territory_body ui limits region area distributor territory st =
     (case reapply ui [(''Filter by Region'', region), (''Filter by Area'', area),
              (''Filter by Distribution house'', distributor),
              (''Filter by Territory'', territory)] (fst st) of
        (False, s1) \<Rightarrow> (s1, snd st)
      | (True, s1) \<Rightarrow>
          (case get_dropdown_options ui ''Filter by Point'' s1 of
             (points, s2) \<Rightarrow>
               (s2, snd st @ map (mk_chain region area distributor territory)
                               (apply_limit (limits ''point'') points))))"

definition distributor_body ::
  "'s filter_ui \<Rightarrow> filter_limits \<Rightarrow> string \<Rightarrow> string \<Rightarrow> string \<Rightarrow>
   's \<times> pydict list \<Rightarrow> 's \<times> pydict list" where
  "distributor_body ui limits region area distributor st =
     (case reapply ui [(''Filter by Region'', region), (''Filter by Area'', area),
              (''Filter by Distribution house'', distributor)] (fst st) of
        (False, s1) \<Rightarrow> (s1, snd st)
      | (True, s1) \<Rightarrow>
          (case get_dropdown_options ui ''Filter by Territory'' s1 of
             (territories, s2) \<Rightarrow>
               fold (territory_body ui limits region area distributor)
                 (apply_limit (limits ''territory'') territories) (s2, snd st)))"

definition area_body ::
  "'s filter_ui \<Rightarrow> filter_limits \<Rightarrow> string \<Rightarrow> string \<Rightarrow>
   's \<times> pydict list \<Rightarrow> 's \<times> pydict list" where
  "area_body ui limits region area st =
     (case reapply ui [(''Filter by Region'', region), (''Filter by Area'', area)] (fst st) of
        (False, s1) \<Rightarrow> (s1, snd st)
      | (True, s1) \<Rightarrow>
          (case get_dropdown_options ui ''Filter by Distribution house'' s1 of
             (distributors, s2) \<Rightarrow>
               fold (distributor_body ui limits region area)
                 (apply_limit (limits ''distributor'') distributors) (s2, snd st)))"

definition region_body ::
  "'s filter_ui \<Rightarrow> filter_limits \<Rightarrow> string \<Rightarrow> 's \<times> pydict list \<Rightarrow> 's \<times> pydict list" where
  "region_body ui limits region st =
     (case reapply ui [(''Filter by Region'', region)] (fst st) of
        (False, s1) \<Rightarrow> (s1, snd st)
      | (True, s1) \<Rightarrow>
          (case get_dropdown_options ui ''Filter by Area'' s1 of
             (areas, s2) \<Rightarrow>
               fold (area_body ui limits region)
                 (apply_limit (limits ''area'') areas) (s2, snd st)))"

text \<open>The explorer with the page it leaves behind, and the list it returns.\<close>

definition explore :: "'s filter_ui \<Rightarrow> filter_limits \<Rightarrow> 's \<Rightarrow> 's \<times> pydict list" where
  "explore ui limits s =
     (case get_dropdown_options ui ''Filter by Region'' (clear_all_filters ui s) of
        (regions, s1) \<Rightarrow>
          (let regions = apply_limit (limits ''region'') regions in
           if regions = [] then (s1, [])
           else fold (region_body ui limits) regions (s1, [])))"

definition build_complete_filter_chains :: "'s filter_ui \<Rightarrow> filter_limits \<Rightarrow> 's \<Rightarrow> pydict list" where
  "build_complete_filter_chains ui limits s = snd (explore ui limits s)"

text \<open>
  The three outer loop bodies have one shape: re-apply the prefix, query the next dropdown,
  cap the options, run the inner loop over them. \<open>loop_level\<close> is that shape; the facts
  about the bodies are proved for it once.
\<close>

definition loop_level ::
  "'s filter_ui \<Rightarrow> (string \<times> string) list \<Rightarrow> string \<Rightarrow> int option \<Rightarrow>
   (string \<Rightarrow> 's \<times> pydict list \<Rightarrow> 's \<times> pydict list) \<Rightarrow>
   's \<times> pydict list \<Rightarrow> 's \<times> pydict list" where
  "loop_level ui selections dropdown_name limit inner st =
     (case reapply ui selections (fst st) of
        (False, s1) \<Rightarrow> (s1, snd st)
      | (True, s1) \<Rightarrow>
          (case get_dropdown_options ui dropdown_name s1 of
             (options, s2) \<Rightarrow> fold inner (apply_limit limit options) (s2, snd st)))"

text \<open>The regions the outermost loop runs over: the capped options of the first query.\<close>

definition regions_explored :: "'s filter_ui \<Rightarrow> filter_limits \<Rightarrow> 's \<Rightarrow> string list" where
  "regions_explored ui limits s =
     apply_limit (limits ''region'')
       (fst (get_dropdown_options ui ''Filter by Region'' (clear_all_filters ui s)))"

text \<open>
  The size of a dimension for the bound on the number of chains: the cap where a positive
  cap is set, else a bound on the option list of that dropdown in every state of the page.
\<close>

definition domain_bound :: "'s filter_ui \<Rightarrow> string \<Rightarrow> nat \<Rightarrow> bool" where
  "domain_bound ui dropdown_name n =
     (\<forall>s. length (fst (get_dropdown_options ui dropdown_name s)) \<le> n)"

definition cap_or_domain :: "'s filter_ui \<Rightarrow> filter_limits \<Rightarrow> string \<Rightarrow> string \<Rightarrow> nat \<Rightarrow> bool" where
  "cap_or_domain ui limits dname dropdown_name n =
     (case limits dname of
        Some k \<Rightarrow> if 0 < k then n = nat k else domain_bound ui dropdown_name n
      | None \<Rightarrow> domain_bound ui dropdown_name n)"

text \<open>
  Where the run of the explorer stands when a loop comes to one of its options. The loop
  over the regions comes to \<open>region\<close> after the bodies of the regions \<open>earlier\<close>, the
  regions \<open>later\<close> being still to do; \<open>st\<close> is the page and the list of chains at
  that moment. Inside the body of a region that was selected, the loop over its areas comes
  to \<open>area\<close> in the same way, \<open>st0\<close> being the state in which the body of the region
  started; and so on for the distributors of an area and the territories of a distributor.
\<close>

definition at_region ::
  "'s filter_ui \<Rightarrow> filter_limits \<Rightarrow> 's \<Rightarrow> string list \<Rightarrow> string \<Rightarrow> string list \<Rightarrow>
   's \<times> pydict list \<Rightarrow> bool" where
  "at_region ui limits s earlier region later st \<longleftrightarrow>
     (case get_dropdown_options ui ''Filter by Region'' (clear_all_filters ui s) of
        (regions, s1) \<Rightarrow>
          apply_limit (limits ''region'') regions = earlier @ region # later \<and>
          st = fold (region_body ui limits) earlier (s1, []))"

definition at_area ::
  "'s filter_ui \<Rightarrow> filter_limits \<Rightarrow> string \<Rightarrow> 's \<times> pydict list \<Rightarrow>
   string list \<Rightarrow> string \<Rightarrow> string list \<Rightarrow> 's \<times> pydict list \<Rightarrow> bool" where
  "at_area ui limits region st0 earlier area later st \<longleftrightarrow>
     (case reapply ui [(''Filter by Region'', region)] (fst st0) of
        (False, s1) \<Rightarrow> False
      | (True, s1) \<Rightarrow>
          (case get_dropdown_options ui ''Filter by Area'' s1 of
             (areas, s2) \<Rightarrow>
               apply_limit (limits ''area'') areas = earlier @ area # later \<and>
               st = fold (area_body ui limits region) earlier (s2, snd st0)))"

definition at_distributor ::
  "'s filter_ui \<Rightarrow> filter_limits \<Rightarrow> string \<Rightarrow> string \<Rightarrow> 's \<times> pydict list \<Rightarrow>
   string list \<Rightarrow> string \<Rightarrow> string list \<Rightarrow> 's \<times> pydict list \<Rightarrow> bool" where
  "at_distributor ui limits region area st0 earlier distributor later st \<longleftrightarrow>
     (case reapply ui [(''Filter by Region'', region), (''Filter by Area'', area)] (fst st0) of
        (False, s1) \<Rightarrow> False
      | (True, s1) \<Rightarrow>
          (case get_dropdown_options ui ''Filter by Distribution house'' s1 of
             (distributors, s2) \<Rightarrow>
               apply_limit (limits ''distributor'') distributors = earlier @ distributor # later \<and>
               st = fold (distributor_body ui limits region area) earlier (s2, snd st0)))"

definition at_territory ::
  "'s filter_ui \<Rightarrow> filter_limits \<Rightarrow> string \<Rightarrow> string \<Rightarrow> string \<Rightarrow> 's \<times> pydict list \<Rightarrow>
   string list \<Rightarrow> string \<Rightarrow> string list \<Rightarrow> 's \<times> pydict list \<Rightarrow> bool" where
  "at_territory ui limits region area distributor st0 earlier territory later st \<longleftrightarrow>
     (case reapply ui [(''Filter by Region'', region), (''Filter by Area'', area),
              (''Filter by Distribution house'', distributor)] (fst st0) of
        (False, s1) \<Rightarrow> False
      | (True, s1) \<Rightarrow>
          (case get_dropdown_options ui ''Filter by Territory'' s1 of
             (territories, s2) \<Rightarrow>
               apply_limit (limits ''territory'') territories = earlier @ territory # later \<and>
               st = fold (territory_body ui limits region area distributor) earlier (s2, snd st0)))"

text \<open>
  At last the chains of a territory: \<open>point\<close> is among the capped options of the point
  dropdown read in the body of the territory, which started in the state \<open>st0\<close>.
\<close>

definition at_point ::
  "'s filter_ui \<Rightarrow> filter_limits \<Rightarrow> string \<Rightarrow> string \<Rightarrow> string \<Rightarrow> string \<Rightarrow>
   's \<times> pydict list \<Rightarrow> string \<Rightarrow> bool" where
  "at_point ui limits region area distributor territory st0 point \<longleftrightarrow>
     (case reapply ui [(''Filter by Region'', region), (''Filter by Area'', area),
              (''Filter by Distribution house'', distributor),
              (''Filter by Territory'', territory)] (fst st0) of
        (False, s1) \<Rightarrow> False
      | (True, s1) \<Rightarrow>
          (case get_dropdown_options ui ''Filter by Point'' s1 of
             (points, s2) \<Rightarrow> point \<in> set (apply_limit (limits ''point'') points)))"

subsection \<open>A page for the examples\<close>

text \<open>
  A small page: the state is the list of clicks made so far. The region dropdown lists
  \<^verbatim>\<open>Dhaka\<close> (twice, once padded) and \<^verbatim>\<open>Ghost\<close>, an option whose click is
  rejected; below a region there are one visible area, one distributor, two territories,
  and one point next to a blank option.
\<close>

definition shown :: "string \<Rightarrow> elem" where
  "shown t = \<lparr>is_visible = Some True, inner_text = Some t\<rparr>"

definition example_options :: "string \<Rightarrow> elem list" where
  "example_options dropdown_name =
     (if dropdown_name = ''Filter by Region''
        then [shown ''Dhaka '', shown ''Dhaka'', shown ''Ghost'']
      else if dropdown_name = ''Filter by Area''
        then [shown ''Gulshan'', \<lparr>is_visible = Some False, inner_text = Some ''Banani''\<rparr>]
      else if dropdown_name = ''Filter by Distribution house'' then [shown ''ABC Traders'']
      else if dropdown_name = ''Filter by Territory'' then [shown ''T1'', shown ''T2'']
      else if dropdown_name = ''Filter by Point'' then [shown ''P1'', shown ''  '']
      else [])"

definition example_ui :: "(string \<times> nat) list filter_ui" where
  "example_ui =
     \<lparr>clear_all_filters = (\<lambda>s. []),
      wait_for_loading = (\<lambda>s. s),
      open_dropdown = (\<lambda>dropdown_name s. (Some (example_options dropdown_name), s)),
      close_dropdown = (\<lambda>s. s),
      click_option = (\<lambda>dropdown_name i s.
         if dropdown_name = ''Filter by Region'' \<and> i = 2 then (False, s)
         else (True, s @ [(dropdown_name, i)])),
      press_escape = (\<lambda>s. s)\<rparr>"

definition no_limits :: filter_limits where
  "no_limits = (\<lambda>dim. None)"

text \<open>
  A page on which two options cannot be selected, the first region, \<^verbatim>\<open>Ghost\<close>,
  and the first territory, \<^verbatim>\<open>T1\<close>: the click on them is rejected. The other
  dropdowns are those of the example page.
\<close>

definition rejecting_ui :: "(string \<times> nat) list filter_ui" where
  "rejecting_ui =
     example_ui\<lparr>open_dropdown := (\<lambda>dropdown_name s.
        (Some (if dropdown_name = ''Filter by Region'' then [shown ''Ghost'', shown ''Dhaka'']
               else example_options dropdown_name), s)),
      click_option := (\<lambda>dropdown_name i s.
         if (dropdown_name = ''Filter by Region'' \<or> dropdown_name = ''Filter by Territory'') \<and> i = 0
         then (False, s)
         else (True, s @ [(dropdown_name, i)]))\<rparr>"


text \<open>
  A page with three regions whose areas come in a different order: \<^verbatim>\<open>A1\<close>,
  \<^verbatim>\<open>A9\<close> under \<^verbatim>\<open>R1\<close> and \<^verbatim>\<open>R3\<close>, and \<^verbatim>\<open>A9\<close>, \<^verbatim>\<open>A1\<close> under
  \<^verbatim>\<open>R2\<close>. The state is the list of clicks made since the filters were cleared.
\<close>

definition three_region_options :: "string \<Rightarrow> (string \<times> nat) list \<Rightarrow> elem list" where
  "three_region_options dropdown_name s =
     (if dropdown_name = ''Filter by Area''
        then (if (''Filter by Region'', 1) \<in> set s then [shown ''A9'', shown ''A1'']
              else [shown ''A1'', shown ''A9''])
      else if dropdown_name = ''Filter by Region'' then [shown ''R1'', shown ''R2'', shown ''R3'']
      else if dropdown_name = ''Filter by Distribution house'' then [shown ''D1'']
      else if dropdown_name = ''Filter by Territory'' then [shown ''T1'']
      else if dropdown_name = ''Filter by Point'' then [shown ''P1'']
      else [])"

definition three_region_ui :: "(string \<times> nat) list filter_ui" where
  "three_region_ui =
     \<lparr>clear_all_filters = (\<lambda>s. []),
      wait_for_loading = (\<lambda>s. s),
      open_dropdown = (\<lambda>dropdown_name s. (Some (three_region_options dropdown_name s), s)),
      close_dropdown = (\<lambda>s. s),
      click_option = (\<lambda>dropdown_name i s. (True, s @ [(dropdown_name, i)])),
      press_escape = (\<lambda>s. s)\<rparr>"


text \<open>
  The values the explorer can meet in one dimension: the options of some query of that
  dropdown, after the cap.
\<close>

definition explored :: "'s filter_ui \<Rightarrow> filter_limits \<Rightarrow> string \<Rightarrow> string \<Rightarrow> string set" where
  "explored ui limits dname dropdown_name =
     {v. \<exists>s. v \<in> set (apply_limit (limits dname) (fst (get_dropdown_options ui dropdown_name s)))}"


section \<open>The result table as the script reads it\<close>

text \<open>
  The operations of the page behind the two collectors; as before the page is a state of
  type \<open>'s\<close>, \<open>None\<close> stands for a call that raises, and reading does not change the page.
  \<^item> \<open>settle\<close> is \<^verbatim>\<open>wait_for_loading(page)\<close>.
  \<^item> \<open>table_present\<close> is \<^verbatim>\<open>page.wait_for_selector('table')\<close>; \<open>False\<close> when it raises.
  \<^item> \<open>tbody_rows\<close> and \<open>all_rows\<close> list the rows found by \<^verbatim>\<open>'tbody tr'\<close> and by
    \<^verbatim>\<open>'tr'\<close>. A row is the list of the texts of its \<^verbatim>\<open>td\<close> cells (\<open>None\<close> for a cell
    whose \<^verbatim>\<open>inner_text()\<close> raises), or \<open>None\<close> when listing its cells raises.
  \<^item> \<open>pagination_controls\<close> are the buttons \<^verbatim>\<open>button.mantine-Pagination-control\<close>, as
    many as \<^verbatim>\<open>count()\<close> says; \<open>scroll_into_view\<close>, \<open>mouse_wheel\<close>, \<open>click_control\<close>,
    \<open>element_handle\<close> and \<open>js_click\<close> are the calls made on the last of them. A failed
    \<open>click_control\<close> returns \<open>False\<close> and the page it leaves, since the script goes on.
  \<^item> \<open>advance_next\<close> is the block that looks for the \<^verbatim>\<open>Next\<close> button, checks that it
    is there, visible and not disabled, scrolls to it and clicks it; \<open>False\<close> when the
    button is not clicked (absent, hidden, disabled, or a call raises).
  \<^item> \<open>role_button_count\<close> is \<^verbatim>\<open>count()\<close> of the buttons \<^verbatim>\<open>button[role="button"]\<close>,
    \<open>role_button s i\<close> the \<open>i\<close>-th of them on the page \<open>s\<close> (the locator is resolved
    anew at each use), \<open>click_button\<close> scrolls to it and clicks it; \<open>False\<close> when that
    raises.
\<close>

type_synonym raw_row = "string option list option"

record 's table_ui =
  settle :: "'s \<Rightarrow> 's"
  table_present :: "'s \<Rightarrow> bool"
  tbody_rows :: "'s \<Rightarrow> raw_row list option"
  all_rows :: "'s \<Rightarrow> raw_row list option"
  pagination_controls :: "'s \<Rightarrow> elem list option"
  scroll_into_view :: "nat \<Rightarrow> 's \<Rightarrow> 's option"
  mouse_wheel :: "'s \<Rightarrow> 's option"
  click_control :: "nat \<Rightarrow> 's \<Rightarrow> bool \<times> 's"
  element_handle :: "nat \<Rightarrow> 's \<Rightarrow> bool option"
  js_click :: "nat \<Rightarrow> 's \<Rightarrow> 's option"
  advance_next :: "'s \<Rightarrow> bool \<times> 's"
  role_button_count :: "'s \<Rightarrow> nat option"
  role_button :: "'s \<Rightarrow> nat \<Rightarrow> elem"
  click_button :: "nat \<Rightarrow> 's \<Rightarrow> bool \<times> 's"

subsection \<open>\<^verbatim>\<open>get_table_data\<close>\<close>

text \<open>
  The body of \<^verbatim>\<open>for row in tbody_rows\<close>: a row with at least seven cells whose first
  seven texts can be read gives one record of the stripped texts; any other row gives none.
\<close>

definition row_data :: "raw_row \<Rightarrow> pydict list" where
  "row_data row =
     (case row of
        None \<Rightarrow> []
      | Some cells \<Rightarrow>
          if length cells \<ge> 7
          then (case those (take 7 cells) of
                  Some [c0, c1, c2, c3, c4, c5, c6] \<Rightarrow>
                    [mk_row (py_strip c0) (py_strip c1) (py_strip c2) (py_strip c3)
                       (py_strip c4) (py_strip c5) (py_strip c6)]
                | _ \<Rightarrow> [])
          else [])"

definition get_table_data :: "'s table_ui \<Rightarrow> 's \<Rightarrow> pydict list \<times> 's" where
  "get_table_data ui s =
     (let s1 = settle ui s in
      if \<not> table_present ui s1 then ([], s1)
      else (case tbody_rows ui s1 of
              None \<Rightarrow> ([], s1)
            | Some tbody \<Rightarrow>
                if tbody = []
                then (case all_rows ui s1 of
                        None \<Rightarrow> ([], s1)
                      | Some rows \<Rightarrow>
                          (concat (map row_data (if length rows > 1 then tl rows else [])), s1))
                else (concat (map row_data tbody), s1)))"

subsection \<open>Pagination labels\<close>

definition digit_chars :: string where
  "digit_chars = ''0123456789''"

definition py_isdigit :: "string \<Rightarrow> bool" where
  "py_isdigit s = (s \<noteq> [] \<and> list_all (\<lambda>c. c \<in> set digit_chars) s)"

definition digit_value :: "char \<Rightarrow> nat" where
  "digit_value c = (case map_of (zip digit_chars [0..<10]) c of None \<Rightarrow> 0 | Some d \<Rightarrow> d)"

text \<open>\<^verbatim>\<open>int(text)\<close> for a string of decimal digits.\<close>

definition py_int :: "string \<Rightarrow> nat" where
  "py_int s = foldl (\<lambda>n c. 10 * n + digit_value c) 0 s"

subsection \<open>\<^verbatim>\<open>get_first_and_last_page_data\<close>\<close>

text \<open>
  One pass of \<^verbatim>\<open>for i in range(count)\<close>; the state is the pair
  \<^verbatim>\<open>(last_page_number, last_button_index)\<close>, \<open>None\<close> while both are \<^verbatim>\<open>None\<close>.
\<close>

definition last_step :: "nat \<times> elem \<Rightarrow> (string \<times> nat) option \<Rightarrow> (string \<times> nat) option" where
  "last_step ib found =
     (case ib of (i, btn) \<Rightarrow>
        (case is_visible btn of
           Some True \<Rightarrow>
             (case inner_text btn of
                Some t \<Rightarrow>
                  (let text = py_strip t in
                   if py_isdigit text
                   then (case found of
                           None \<Rightarrow> Some (text, i)
                         | Some (last_page_number, last_button_index) \<Rightarrow>
                             if py_int text > py_int last_page_number then Some (text, i)
                             else found)
                   else found)
              | None \<Rightarrow> found)
         | _ \<Rightarrow> found))"

definition find_last_page :: "elem list \<Rightarrow> (string \<times> nat) option" where
  "find_last_page buttons = fold last_step (enumerate 0 buttons) None"

text \<open>
  Step 3 up to the click: scroll to the button, scroll the page up, click; when the click
  raises, click through the element handle if there is one. \<open>None\<close> when a call raises
  outside the inner \<^verbatim>\<open>try\<close>, which ends the function in its outer handler.
\<close>

definition go_to_last :: "'s table_ui \<Rightarrow> nat \<Rightarrow> 's \<Rightarrow> 's option" where
  "go_to_last ui i s =
     (case scroll_into_view ui i s of
        None \<Rightarrow> None
      | Some s1 \<Rightarrow>
          (case mouse_wheel ui s1 of
             None \<Rightarrow> None
           | Some s2 \<Rightarrow>
               (case click_control ui i s2 of
                  (True, s3) \<Rightarrow> Some s3
                | (False, s3) \<Rightarrow>
                    (case element_handle ui i s3 of
                       None \<Rightarrow> None
                     | Some True \<Rightarrow> js_click ui i s3
                     | Some False \<Rightarrow> Some s3))))"

text \<open>
  The loop \<^verbatim>\<open>for row_str, row in zip(new_data_str, last_page_data)\<close>; the state is
  \<^verbatim>\<open>(all_data, seen_data)\<close>. \<^verbatim>\<open>seen_data\<close> holds \<^verbatim>\<open>str(row)\<close>; for the
  dictionaries that \<^verbatim>\<open>get_table_data\<close> builds (the same seven keys in the same order)
  two rows have the same \<^verbatim>\<open>str\<close> exactly when they are equal, so the model keeps the
  rows themselves.
\<close>

definition add_unseen :: "pydict \<Rightarrow> pydict list \<times> pydict set \<Rightarrow> pydict list \<times> pydict set" where
  "add_unseen row st =
     (case st of (all_data, seen_data) \<Rightarrow>
        if row \<notin> seen_data then (all_data @ [row], insert row seen_data) else st)"

definition get_first_and_last_page_data :: "'s table_ui \<Rightarrow> 's \<Rightarrow> pydict list" where
  "get_first_and_last_page_data ui s =
     (case get_table_data ui (settle ui s) of
        (first_page_data, s1) \<Rightarrow>
          (case pagination_controls ui s1 of
             None \<Rightarrow> first_page_data
           | Some buttons \<Rightarrow>
               (case find_last_page buttons of
                  None \<Rightarrow> first_page_data
                | Some (last_page_number, last_button_index) \<Rightarrow>
                    (case go_to_last ui last_button_index s1 of
                       None \<Rightarrow> first_page_data
                     | Some s2 \<Rightarrow>
                         (case get_table_data ui (settle ui s2) of
                            (last_page_data, s3) \<Rightarrow>
                              fst (fold add_unseen last_page_data
                                     (first_page_data, set first_page_data)))))))"

subsection \<open>\<^verbatim>\<open>get_all_pages_data\<close>\<close>

record 's crawl =
  all_data :: "pydict list"
  seen_data :: "pydict set"
  visited_pages :: "string set"
  page :: 's

text \<open>
  The test \<^verbatim>\<open>if new_data and not all(d in seen_data for d in new_data_str)\<close> and its
  body, used after the \<^verbatim>\<open>Next\<close> click and after each numbered click; the first
  component says whether the body ran.
\<close>

definition take_page :: "pydict list \<Rightarrow> 's crawl \<Rightarrow> bool \<times> 's crawl" where
  "take_page new_data st =
     (if new_data \<noteq> [] \<and> \<not> list_all (\<lambda>d. d \<in> seen_data st) new_data
      then (True, st\<lparr>all_data := all_data st @ new_data,
                     seen_data := seen_data st \<union> set new_data\<rparr>)
      else (False, st))"

text \<open>
  One pass of \<^verbatim>\<open>for i in range(count)\<close> of the fallback; the state is the crawl and
  \<^verbatim>\<open>moved_to_next\<close>.
\<close>

definition numbered_step :: "'s table_ui \<Rightarrow> nat \<Rightarrow> 's crawl \<times> bool \<Rightarrow> 's crawl \<times> bool" where
  "numbered_step ui i stm =
     (case stm of (st, moved_to_next) \<Rightarrow>
        (let button = role_button ui (page st) i in
         case is_visible button of
           Some True \<Rightarrow>
             (case inner_text button of
                Some t \<Rightarrow>
                  (let btn_text = py_strip t in
                   if py_isdigit btn_text \<and> btn_text \<notin> visited_pages st
                   then (let st1 = st\<lparr>visited_pages := insert btn_text (visited_pages st)\<rparr> in
                         case click_button ui i (page st1) of
                           (False, s1) \<Rightarrow> (st1\<lparr>page := s1\<rparr>, moved_to_next)
                         | (True, s1) \<Rightarrow>
                             (case get_table_data ui (settle ui s1) of
                                (new_data, s2) \<Rightarrow>
                                  (case take_page new_data (st1\<lparr>page := s2\<rparr>) of
                                     (True, st2) \<Rightarrow> (st2, True)
                                   | (False, st2) \<Rightarrow> (st2, moved_to_next))))
                   else stm)
              | None \<Rightarrow> stm)
         | _ \<Rightarrow> stm))"

definition numbered_pass :: "'s table_ui \<Rightarrow> 's crawl \<Rightarrow> 's crawl \<times> bool" where
  "numbered_pass ui st =
     (case role_button_count ui (page st) of
        None \<Rightarrow> (st, False)
      | Some count \<Rightarrow> fold (numbered_step ui) [0..<count] (st, False))"

text \<open>
  The loop \<^verbatim>\<open>while True\<close>. Nothing bounds the number of its passes, so the model counts
  them down from \<open>fuel\<close> and returns \<open>None\<close> when they run out.
\<close>

fun pages_loop :: "nat \<Rightarrow> 's table_ui \<Rightarrow> 's crawl \<Rightarrow> pydict list option" where
  "pages_loop 0 ui st = None"
| "pages_loop (Suc fuel) ui st =
     (case advance_next ui (page st) of
        (True, s1) \<Rightarrow>
          (case get_table_data ui (settle ui s1) of
             (new_data, s2) \<Rightarrow>
               (case take_page new_data (st\<lparr>page := s2\<rparr>) of
                  (True, st1) \<Rightarrow> pages_loop fuel ui st1
                | (False, st1) \<Rightarrow>
                    (case numbered_pass ui st1 of
                       (st2, moved_to_next) \<Rightarrow>
                         if moved_to_next then pages_loop fuel ui st2 else Some (all_data st2))))
      | (False, s1) \<Rightarrow>
          (case numbered_pass ui (st\<lparr>page := s1\<rparr>) of
             (st2, moved_to_next) \<Rightarrow>
               if moved_to_next then pages_loop fuel ui st2 else Some (all_data st2)))"

definition get_all_pages_data :: "nat \<Rightarrow> 's table_ui \<Rightarrow> 's \<Rightarrow> pydict list option" where
  "get_all_pages_data fuel ui s =
     (case get_table_data ui (settle ui s) of
        (page_data, s1) \<Rightarrow>
          pages_loop fuel ui
            \<lparr>all_data = page_data, seen_data = set page_data, visited_pages = {}, page = s1\<rparr>)"

subsection \<open>Notions for the statements about the collectors\<close>

text \<open>
  The rows of a page that are new: not seen before and not earlier on the page. This is
  what a union without duplicates appends.
\<close>

fun fresh :: "'a set \<Rightarrow> 'a list \<Rightarrow> 'a list" where
  "fresh seen [] = []"
| "fresh seen (r # rs) = (if r \<in> seen then fresh seen rs else r # fresh (insert r seen) rs)"

text \<open>The page number a pagination button shows, if it is visible and shows one.\<close>

definition page_label :: "elem \<Rightarrow> string option" where
  "page_label btn =
     (case is_visible btn of
        Some True \<Rightarrow>
          (case inner_text btn of
             Some t \<Rightarrow> if py_isdigit (py_strip t) then Some (py_strip t) else None
           | None \<Rightarrow> None)
      | _ \<Rightarrow> None)"

text \<open>
  What the search for the last page has found among the buttons: nothing when no button
  shows a page number, else the first button among those with the highest number.
\<close>

definition highest_page :: "elem list \<Rightarrow> (string \<times> nat) option \<Rightarrow> bool" where
  "highest_page buttons found =
     (case found of
        None \<Rightarrow> \<forall>b \<in> set buttons. page_label b = None
      | Some (text, i) \<Rightarrow>
          i < length buttons \<and> page_label (buttons ! i) = Some text \<and>
          (\<forall>j < length buttons. \<forall>l. page_label (buttons ! j) = Some l \<longrightarrow> py_int l \<le> py_int text) \<and>
          (\<forall>j < i. \<forall>l. page_label (buttons ! j) = Some l \<longrightarrow> py_int l < py_int text))"

subsection \<open>A table for the examples\<close>

text \<open>
  A result view of two pages, three rows and two rows, the last row of the first page shown
  again on the second; the state is the number of the page shown, from 0. There are a
  \<^verbatim>\<open>Next\<close> button, enabled on the first page, and the pagination buttons \<^verbatim>\<open>1\<close>
  and \<^verbatim>\<open>2\<close>.
\<close>

definition row_of :: "string list \<Rightarrow> raw_row" where
  "row_of texts = Some (map Some texts)"

definition example_pages :: "raw_row list list" where
  "example_pages =
     [[row_of [''Shop A'', ''R001'', ''Dhaka'', ''Gulshan'', ''ABC Traders'', ''T1'', ''P1''],
       row_of [''Shop B'', ''R002'', ''Dhaka'', ''Gulshan'', ''ABC Traders'', ''T1'', ''P1''],
       row_of [''Shop C'', ''R003'', ''Dhaka'', ''Gulshan'', ''ABC Traders'', ''T1'', ''P1'']],
      [row_of [''Shop C'', ''R003'', ''Dhaka'', ''Gulshan'', ''ABC Traders'', ''T1'', ''P1''],
       row_of [''Shop D'', ''R004'', ''Dhaka'', ''Gulshan'', ''ABC Traders'', ''T1'', ''P1'']]]"

definition shop :: "string \<Rightarrow> string \<Rightarrow> pydict" where
  "shop name code = mk_row name code ''Dhaka'' ''Gulshan'' ''ABC Traders'' ''T1'' ''P1''"

definition example_table :: "nat table_ui" where
  "example_table =
     \<lparr>settle = (\<lambda>s. s),
      table_present = (\<lambda>s. True),
      tbody_rows = (\<lambda>s. Some (if s < length example_pages then example_pages ! s else [])),
      all_rows = (\<lambda>s. Some []),
      pagination_controls = (\<lambda>s. Some [shown ''Previous'', shown ''1'', shown ''2'', shown ''Next'']),
      scroll_into_view = (\<lambda>i s. Some s),
      mouse_wheel = (\<lambda>s. Some s),
      click_control = (\<lambda>i s. (True, i - 1)),
      element_handle = (\<lambda>i s. Some True),
      js_click = (\<lambda>i s. Some (i - 1)),
      advance_next = (\<lambda>s. if s = 0 then (True, 1) else (False, s)),
      role_button_count = (\<lambda>s. Some 0),
      role_button = (\<lambda>s i. \<lparr>is_visible = Some False, inner_text = None\<rparr>),
      click_button = (\<lambda>i s. (True, s))\<rparr>"

text \<open>The same view when its first page shows the row of Shop A twice.\<close>

definition repeated_row_table :: "nat table_ui" where
  "repeated_row_table =
     example_table\<lparr>tbody_rows := (\<lambda>s.
        Some (if s = 0
              then [row_of [''Shop A'', ''R001'', ''Dhaka'', ''Gulshan'', ''ABC Traders'', ''T1'', ''P1''],
                    row_of [''Shop A'', ''R001'', ''Dhaka'', ''Gulshan'', ''ABC Traders'', ''T1'', ''P1'']]
              else if s < length example_pages then example_pages ! s else []))\<rparr>"

text \<open>
  The same view with a pagination that does not advance: every click shows the first page
  again.
\<close>

definition stuck_table :: "nat table_ui" where
  "stuck_table =
     example_table\<lparr>tbody_rows := (\<lambda>s. Some (example_pages ! 0)),
                   advance_next := (\<lambda>s. (True, s))\<rparr>"


section \<open>Facts about the string functions\<close>

lemma py_in_sublist: "py_in sub s \<longleftrightarrow> sublist sub s"
  by (induction s) (simp_all add: sublist_Cons_right)

lemma map_of_filter_mapping:
  "map_of filter_mapping k = (if k \<in> set dimensions then Some k else None)"
  by (simp add: filter_mapping_def dimensions_def)


section \<open>The per-record loop\<close>

lemma check_filter_step:
  "check_filter record kv (b, is) =
     (b \<and> (fst kv \<notin> set dimensions \<or> passes record kv),
      is @ issues_of [kv] record)"
  by (cases kv)
    (simp add: check_filter_def map_of_filter_mapping py_in_sublist passes_def issues_of_def
      Let_def)

lemma check_filter_fold:
  "fold (check_filter record) filters (b, is) =
     (b \<and> record_valid filters record, is @ issues_of filters record)"
proof (induction filters arbitrary: b "is")
  case Nil
  show ?case by (simp add: record_valid_def issues_of_def)
next
  case (Cons kv filters)
  have "fold (check_filter record) (kv # filters) (b, is) =
        fold (check_filter record) filters (check_filter record kv (b, is))"
    by simp
  also have "\<dots> = (b \<and> record_valid (kv # filters) record,
                   is @ issues_of (kv # filters) record)"
    unfolding check_filter_step Cons.IH
    by (auto simp: record_valid_def issues_of_def)
  finally show ?case .
qed

lemma check_record_eq:
  "check_record filters record = (record_valid filters record, issues_of filters record)"
  by (simp add: check_record_def check_filter_fold)

lemma record_step_fold:
  "fold (record_step filters) data vr =
     vr\<lparr>valid_records := valid_records vr + length (filter (record_valid filters) data),
        invalid_records := invalid_records vr @
          map (\<lambda>record. \<lparr>the_record = record, issues = issues_of filters record\<rparr>)
            (filter (\<lambda>record. \<not> record_valid filters record) data)\<rparr>"
  by (induction data arbitrary: vr) (simp_all add: record_step_def check_record_eq)

lemma compliance_step_fold_records:
  "valid_records (fold (compliance_step data filters) ks vr) = valid_records vr \<and>
   invalid_records (fold (compliance_step data filters) ks vr) = invalid_records vr \<and>
   total_records (fold (compliance_step data filters) ks vr) = total_records vr"
  by (induction ks arbitrary: vr)
    (auto simp: compliance_step_def Let_def split: option.splits)

lemma verify_filters_valid:
  "valid_records (verify_filters data filters) = length (filter (record_valid filters) data)"
  by (simp add: verify_filters_def Let_def compliance_step_fold_records record_step_fold)

lemma verify_filters_invalid:
  "invalid_records (verify_filters data filters) =
     map (\<lambda>record. \<lparr>the_record = record, issues = issues_of filters record\<rparr>)
       (filter (\<lambda>record. \<not> record_valid filters record) data)"
  by (simp add: verify_filters_def Let_def compliance_step_fold_records record_step_fold)


lemma record_valid_iff:
  "record_valid filters record \<longleftrightarrow>
     (\<forall>(k, v) \<in> set filters. k \<in> set dimensions \<longrightarrow>
        sublist (py_lower v) (py_lower (py_strip (dict_get record k ''''))))"
  by (auto simp: record_valid_def passes_def list_all_iff)

lemma issues_of_eq:
  "issues_of filters record =
     [issue_message k v (py_strip (dict_get record k '''')).
        (k, v) \<leftarrow> filters, k \<in> set dimensions,
        \<not> sublist (py_lower v) (py_lower (py_strip (dict_get record k '''')))]"
  by (induction filters) (auto simp: issues_of_def passes_def)

lemma record_valid_mk_chain:
  "record_valid (mk_chain r a d t p) record \<longleftrightarrow>
     sublist (py_lower r) (py_lower (py_strip (dict_get record ''region'' ''''))) \<and>
     sublist (py_lower a) (py_lower (py_strip (dict_get record ''area'' ''''))) \<and>
     sublist (py_lower d) (py_lower (py_strip (dict_get record ''distributor'' ''''))) \<and>
     sublist (py_lower t) (py_lower (py_strip (dict_get record ''territory'' ''''))) \<and>
     sublist (py_lower p) (py_lower (py_strip (dict_get record ''point'' '''')))"
  by (simp add: record_valid_def mk_chain_def passes_def dimensions_def)

text \<open>
  C1. The per-record loop of \<^verbatim>\<open>verify_filters\<close> judges a field by the substring rule:
  the lowercased filter value must occur in the lowercased, stripped field value of the
  record (a missing field counts as the empty string); equality is not required. A record
  is counted in \<^verbatim>\<open>valid_records\<close> exactly when every filter dimension passes the rule,
  for a complete chain all five of them; every other record is listed in
  \<^verbatim>\<open>invalid_records\<close>, in order, with one message
  \<^verbatim>\<open><dim>: expected '<X>', got '<Y>'\<close> for each failing dimension, \<^verbatim>\<open>Y\<close> being the
  stripped field value.
\<close>

theorem verify_filters_substring_rule:
  "valid_records (verify_filters data filters) =
     length [record \<leftarrow> data. \<forall>(k, v) \<in> set filters. k \<in> set dimensions \<longrightarrow>
        sublist (py_lower v) (py_lower (py_strip (dict_get record k '''')))]
   \<and> invalid_records (verify_filters data filters) =
     [\<lparr>the_record = record,
       issues = [issue_message k v (py_strip (dict_get record k '''')).
                  (k, v) \<leftarrow> filters, k \<in> set dimensions,
                  \<not> sublist (py_lower v) (py_lower (py_strip (dict_get record k '''')))]\<rparr>.
      record \<leftarrow> data,
      \<not> (\<forall>(k, v) \<in> set filters. k \<in> set dimensions \<longrightarrow>
        sublist (py_lower v) (py_lower (py_strip (dict_get record k ''''))))]
   \<and> valid_records (verify_filters data (mk_chain r a d t p)) =
     length [record \<leftarrow> data.
       sublist (py_lower r) (py_lower (py_strip (dict_get record ''region'' ''''))) \<and>
       sublist (py_lower a) (py_lower (py_strip (dict_get record ''area'' ''''))) \<and>
       sublist (py_lower d) (py_lower (py_strip (dict_get record ''distributor'' ''''))) \<and>
       sublist (py_lower t) (py_lower (py_strip (dict_get record ''territory'' ''''))) \<and>
       sublist (py_lower p) (py_lower (py_strip (dict_get record ''point'' '''')))]"
proof -
  have inv: "map (\<lambda>record. \<lparr>the_record = record, issues = issues_of filters record\<rparr>)
       (filter (\<lambda>record. \<not> record_valid filters record) data) =
     [\<lparr>the_record = record, issues = issues_of filters record\<rparr>.
        record \<leftarrow> data, \<not> record_valid filters record]"
    by (induction data) simp_all
  show ?thesis
    unfolding verify_filters_valid verify_filters_invalid inv
    unfolding record_valid_iff issues_of_eq record_valid_mk_chain[unfolded record_valid_iff]
    by simp
qed

theorem verify_filters_substring_rule_witness:
  "valid_records (verify_filters [example_row_ok, example_row_bad] example_chain) = 1
   \<and> invalid_records (verify_filters [example_row_ok, example_row_bad] example_chain)
      = [\<lparr>the_record = example_row_bad,
           issues = [''region: expected 'Dhaka', got 'Chittagong'' @ [CHR 0x27]]\<rparr>]"
proof -
  have ok: "record_valid example_chain example_row_ok"
    by code_simp
  have bad: "\<not> record_valid example_chain example_row_bad"
    by code_simp
  have msg: "issues_of example_chain example_row_bad =
      [''region: expected 'Dhaka', got 'Chittagong'' @ [CHR 0x27]]"
    by code_simp
  show ?thesis
    using verify_filters_substring_rule
      [of "[example_row_ok, example_row_bad]" example_chain]
    unfolding record_valid_iff [symmetric] issues_of_eq [symmetric]
    by (simp add: ok bad msg)
qed









section \<open>Option lists\<close>

lemma py_strip_idem: "py_strip (py_strip t) = py_strip t"
proof -
  define u where "u = dropWhile is_space t"
  define w where "w = dropWhile is_space (rev u)"
  have hd_u: "u \<noteq> [] \<Longrightarrow> \<not> is_space (hd u)"
    unfolding u_def by (simp add: hd_dropWhile)
  have hd_w: "w \<noteq> [] \<Longrightarrow> \<not> is_space (hd w)"
    unfolding w_def by (simp add: hd_dropWhile)
  have strip: "py_strip t = rev w"
    by (simp add: py_strip_def u_def w_def)
  show ?thesis
  proof (cases "w = []")
    case True
    show ?thesis unfolding strip True by (simp add: py_strip_def)
  next
    case False
    then have un: "u \<noteq> []" by (auto simp: w_def)
    have "suffix w (rev u)"
      unfolding w_def by (rule suffix_dropWhile)
    then obtain p where p: "rev u = p @ w" by (auto simp: suffix_def)
    have "last w = last (rev u)"
      using False p by simp
    also have "\<dots> = hd u"
      using un by (simp add: last_rev)
    finally have "\<not> is_space (last w)"
      using hd_u un by simp
    then have "\<not> is_space (hd (rev w))"
      using False by (simp add: hd_rev)
    then have a: "dropWhile is_space (rev w) = rev w"
      using False by (cases "rev w") auto
    have b: "dropWhile is_space w = w"
      using hd_w False by (cases w) auto
    show ?thesis
      unfolding strip by (simp add: py_strip_def a b)
  qed
qed

lemma option_step_cases:
  "option_step option acc = acc \<or>
   (\<exists>t. option_step option acc = acc @ [py_strip t] \<and> py_strip t \<noteq> [] \<and> py_strip t \<notin> set acc)"
proof (cases "is_visible option")
  case None
  then show ?thesis by (simp add: option_step_def)
next
  case (Some v)
  note vis = this
  show ?thesis
  proof (cases "inner_text option")
    case None
    then show ?thesis using vis by (cases v) (simp_all add: option_step_def)
  next
    case (Some t)
    show ?thesis
    proof (cases "v \<and> py_strip t \<noteq> [] \<and> py_strip t \<notin> set acc")
      case True
      then have "option_step option acc = acc @ [py_strip t]"
        using vis Some by (simp add: option_step_def Let_def)
      with True show ?thesis by blast
    next
      case False
      then have "option_step option acc = acc"
        using vis Some by (cases v) (auto simp: option_step_def Let_def)
      then show ?thesis by simp
    qed
  qed
qed

lemma option_step_inv:
  assumes "\<forall>t \<in> set acc. t \<noteq> [] \<and> py_strip t = t" "distinct acc"
  shows "(\<forall>t \<in> set (option_step option acc). t \<noteq> [] \<and> py_strip t = t) \<and>
         distinct (option_step option acc)"
proof -
  consider (same) "option_step option acc = acc"
    | (new) t where "option_step option acc = acc @ [py_strip t]" "py_strip t \<noteq> []"
        "py_strip t \<notin> set acc"
    using option_step_cases [of option acc] by blast
  then show ?thesis
  proof cases
    case same
    then show ?thesis using assms by simp
  next
    case new
    have "\<forall>u \<in> set (acc @ [py_strip t]). u \<noteq> [] \<and> py_strip u = u"
    proof
      fix u assume "u \<in> set (acc @ [py_strip t])"
      then have "u \<in> set acc \<or> u = py_strip t" by auto
      then show "u \<noteq> [] \<and> py_strip u = u"
      proof
        assume "u \<in> set acc"
        then show ?thesis using assms(1) by blast
      next
        assume "u = py_strip t"
        then show ?thesis using new(2) py_strip_idem by simp
      qed
    qed
    moreover have "distinct (acc @ [py_strip t])"
      using assms(2) new(3) by simp
    ultimately show ?thesis unfolding new(1) by blast
  qed
qed

lemma fold_option_step_inv:
  assumes "\<forall>t \<in> set acc. t \<noteq> [] \<and> py_strip t = t" "distinct acc"
  shows "(\<forall>t \<in> set (fold option_step options acc). t \<noteq> [] \<and> py_strip t = t) \<and>
         distinct (fold option_step options acc)"
  using assms
proof (induction options arbitrary: acc)
  case Nil
  then show ?case by simp
next
  case (Cons option options)
  have step: "(\<forall>t \<in> set (option_step option acc). t \<noteq> [] \<and> py_strip t = t) \<and>
        distinct (option_step option acc)"
    using Cons.prems by (rule option_step_inv)
  have "fold option_step (option # options) acc = fold option_step options (option_step option acc)"
    by simp
  then show ?case
    using Cons.IH [of "option_step option acc"] step by presburger
qed

lemma get_dropdown_options_eq:
  "fst (get_dropdown_options ui dropdown_name s) =
     (case fst (open_dropdown ui dropdown_name s) of
        None \<Rightarrow> [] | Some options \<Rightarrow> fold option_step options [])"
  by (simp add: get_dropdown_options_def split: prod.split option.split)

lemma get_dropdown_options_inv:
  "(\<forall>t \<in> set (fst (get_dropdown_options ui dropdown_name s)). t \<noteq> [] \<and> py_strip t = t) \<and>
   distinct (fst (get_dropdown_options ui dropdown_name s))"
proof (cases "fst (open_dropdown ui dropdown_name s)")
  case None
  then show ?thesis by (simp add: get_dropdown_options_eq)
next
  case (Some options)
  show ?thesis
    unfolding get_dropdown_options_eq Some option.case
    by (rule fold_option_step_inv) simp_all
qed

lemma set_apply_limit: "set (apply_limit limit xs) \<subseteq> set xs"
  by (auto simp: apply_limit_def py_slice_to_def split: option.splits dest: in_set_takeD)

lemma apply_limit_cap: "0 < k \<Longrightarrow> apply_limit (Some k) xs = take (nat k) xs"
  by (simp add: apply_limit_def py_slice_to_def)

lemma apply_limit_zero: "apply_limit (Some 0) xs = apply_limit None xs"
  by (simp add: apply_limit_def)

lemma length_apply_limit: "length (apply_limit limit xs) \<le> length xs"
  by (cases limit) (auto simp: apply_limit_def py_slice_to_def)

lemma explored_nonempty:
  "v \<in> explored ui limits dname dropdown_name \<Longrightarrow> v \<noteq> [] \<and> py_strip v = v"
proof -
  assume "v \<in> explored ui limits dname dropdown_name"
  then obtain s where "v \<in> set (apply_limit (limits dname) (fst (get_dropdown_options ui dropdown_name s)))"
    unfolding explored_def by auto
  then have "v \<in> set (fst (get_dropdown_options ui dropdown_name s))"
    using set_apply_limit by (rule rev_subsetD)
  then show ?thesis
    using get_dropdown_options_inv [of ui dropdown_name s] by simp
qed



section \<open>The loop bodies of the explorer\<close>

lemma distributor_body_level:
  "distributor_body ui limits region area distributor =
     loop_level ui [(''Filter by Region'', region), (''Filter by Area'', area),
         (''Filter by Distribution house'', distributor)]
       ''Filter by Territory'' (limits ''territory'')
       (territory_body ui limits region area distributor)"
  by (rule ext) (simp add: distributor_body_def loop_level_def)

lemma area_body_level:
  "area_body ui limits region area =
     loop_level ui [(''Filter by Region'', region), (''Filter by Area'', area)]
       ''Filter by Distribution house'' (limits ''distributor'')
       (distributor_body ui limits region area)"
  by (rule ext) (simp add: area_body_def loop_level_def)

lemma region_body_level:
  "region_body ui limits region =
     loop_level ui [(''Filter by Region'', region)]
       ''Filter by Area'' (limits ''area'') (area_body ui limits region)"
  by (rule ext) (simp add: region_body_def loop_level_def)

lemma loop_level_cases:
  obtains (skipped) "\<not> fst (reapply ui selections (fst st))"
      "loop_level ui selections dropdown_name limit inner st =
         (snd (reapply ui selections (fst st)), snd st)"
  | (entered) s1 where "reapply ui selections (fst st) = (True, s1)"
      "loop_level ui selections dropdown_name limit inner st =
         fold inner (apply_limit limit (fst (get_dropdown_options ui dropdown_name s1)))
           (snd (get_dropdown_options ui dropdown_name s1), snd st)"
proof (cases "reapply ui selections (fst st)")
  case (Pair ok s1)
  show ?thesis
  proof (cases ok)
    case True
    show ?thesis
      by (rule entered [of s1])
        (simp_all add: Pair True loop_level_def split: prod.split)
  next
    case False
    show ?thesis
      by (rule skipped) (simp_all add: Pair False loop_level_def)
  qed
qed

lemma territory_body_cases:
  obtains (skipped) "territory_body ui limits region area distributor territory st =
         (snd (reapply ui [(''Filter by Region'', region), (''Filter by Area'', area),
              (''Filter by Distribution house'', distributor),
              (''Filter by Territory'', territory)] (fst st)), snd st)"
  | (entered) s1 where "territory_body ui limits region area distributor territory st =
         (snd (get_dropdown_options ui ''Filter by Point'' s1),
          snd st @ map (mk_chain region area distributor territory)
            (apply_limit (limits ''point'') (fst (get_dropdown_options ui ''Filter by Point'' s1))))"
proof (cases "reapply ui [(''Filter by Region'', region), (''Filter by Area'', area),
              (''Filter by Distribution house'', distributor),
              (''Filter by Territory'', territory)] (fst st)")
  case (Pair ok s1)
  show ?thesis
  proof (cases ok)
    case True
    show ?thesis
      by (rule entered [of s1])
        (simp add: Pair True territory_body_def split: prod.split)
  next
    case False
    show ?thesis
      by (rule skipped) (simp add: Pair False territory_body_def)
  qed
qed

lemma in_explored:
  "v \<in> set (apply_limit (limits dname) (fst (get_dropdown_options ui dropdown_name s)))
     \<Longrightarrow> v \<in> explored ui limits dname dropdown_name"
  unfolding explored_def by blast

section \<open>Where the chains come from\<close>

lemma fold_chains_subset:
  assumes "\<And>x st. x \<in> set xs \<Longrightarrow> set (snd (f x st)) \<subseteq> set (snd st) \<union> G x"
  shows "set (snd (fold f xs st)) \<subseteq> set (snd st) \<union> (\<Union>x \<in> set xs. G x)"
  using assms
proof (induction xs arbitrary: st)
  case Nil
  show ?case by simp
next
  case (Cons x xs)
  have "set (snd (fold f xs (f x st))) \<subseteq> set (snd (f x st)) \<union> (\<Union>y \<in> set xs. G y)"
    by (rule Cons.IH) (simp add: Cons.prems)
  moreover have "set (snd (f x st)) \<subseteq> set (snd st) \<union> G x"
    by (rule Cons.prems) simp
  ultimately show ?case by auto
qed

lemma loop_level_chains:
  assumes "\<And>x st. set (snd (inner x st)) \<subseteq> set (snd st) \<union> G x"
  shows "set (snd (loop_level ui selections dropdown_name (limits dname) inner st))
           \<subseteq> set (snd st) \<union> (\<Union>x \<in> explored ui limits dname dropdown_name. G x)"
proof (cases rule: loop_level_cases [of ui selections st dropdown_name "limits dname" inner])
  case skipped
  then show ?thesis by simp
next
  case (entered s1)
  let ?xs = "apply_limit (limits dname) (fst (get_dropdown_options ui dropdown_name s1))"
  have "set (snd (fold inner ?xs (snd (get_dropdown_options ui dropdown_name s1), snd st)))
          \<subseteq> set (snd st) \<union> (\<Union>x \<in> set ?xs. G x)"
    using fold_chains_subset
      [of ?xs inner G "(snd (get_dropdown_options ui dropdown_name s1), snd st)"] assms
    by simp
  moreover have "set ?xs \<subseteq> explored ui limits dname dropdown_name"
    by (rule subsetI) (rule in_explored)
  ultimately show ?thesis
    unfolding entered(2) by blast
qed

lemma territory_body_chains:
  "set (snd (territory_body ui limits region area distributor territory st))
     \<subseteq> set (snd st) \<union>
        (\<Union>point \<in> explored ui limits ''point'' ''Filter by Point''.
           {mk_chain region area distributor territory point})"
proof (cases rule: territory_body_cases [of ui limits region area distributor territory st])
  case skipped
  then show ?thesis by simp
next
  case (entered s1)
  show ?thesis
    unfolding entered using in_explored [of _ limits "''point''" ui "''Filter by Point''" s1]
    by auto
qed

lemma distributor_body_chains:
  "set (snd (distributor_body ui limits region area distributor st))
     \<subseteq> set (snd st) \<union>
        (\<Union>territory \<in> explored ui limits ''territory'' ''Filter by Territory''.
         \<Union>point \<in> explored ui limits ''point'' ''Filter by Point''.
           {mk_chain region area distributor territory point})"
  unfolding distributor_body_level
  by (rule loop_level_chains) (rule territory_body_chains)

lemma area_body_chains:
  "set (snd (area_body ui limits region area st))
     \<subseteq> set (snd st) \<union>
        (\<Union>distributor \<in> explored ui limits ''distributor'' ''Filter by Distribution house''.
         \<Union>territory \<in> explored ui limits ''territory'' ''Filter by Territory''.
         \<Union>point \<in> explored ui limits ''point'' ''Filter by Point''.
           {mk_chain region area distributor territory point})"
  unfolding area_body_level
  by (rule loop_level_chains) (rule distributor_body_chains)

lemma region_body_chains:
  "set (snd (region_body ui limits region st))
     \<subseteq> set (snd st) \<union>
        (\<Union>area \<in> explored ui limits ''area'' ''Filter by Area''.
         \<Union>distributor \<in> explored ui limits ''distributor'' ''Filter by Distribution house''.
         \<Union>territory \<in> explored ui limits ''territory'' ''Filter by Territory''.
         \<Union>point \<in> explored ui limits ''point'' ''Filter by Point''.
           {mk_chain region area distributor territory point})"
  unfolding region_body_level
  by (rule loop_level_chains) (rule area_body_chains)

text \<open>The regions the explorer iterates over: the capped options of the first query.\<close>

lemma explore_eq:
  "explore ui limits s =
     (if regions_explored ui limits s = []
      then (snd (get_dropdown_options ui ''Filter by Region'' (clear_all_filters ui s)), [])
      else fold (region_body ui limits) (regions_explored ui limits s)
             (snd (get_dropdown_options ui ''Filter by Region'' (clear_all_filters ui s)), []))"
  by (simp add: explore_def regions_explored_def Let_def split: prod.split)

lemma build_chains:
  assumes "chain \<in> set (build_complete_filter_chains ui limits s)"
  shows "\<exists>region area distributor territory point.
           chain = mk_chain region area distributor territory point \<and>
           region \<in> set (regions_explored ui limits s) \<and>
           area \<in> explored ui limits ''area'' ''Filter by Area'' \<and>
           distributor \<in> explored ui limits ''distributor'' ''Filter by Distribution house'' \<and>
           territory \<in> explored ui limits ''territory'' ''Filter by Territory'' \<and>
           point \<in> explored ui limits ''point'' ''Filter by Point''"
proof -
  let ?G = "\<lambda>region. (\<Union>area \<in> explored ui limits ''area'' ''Filter by Area''.
         \<Union>distributor \<in> explored ui limits ''distributor'' ''Filter by Distribution house''.
         \<Union>territory \<in> explored ui limits ''territory'' ''Filter by Territory''.
         \<Union>point \<in> explored ui limits ''point'' ''Filter by Point''.
           {mk_chain region area distributor territory point})"
  let ?s1 = "snd (get_dropdown_options ui ''Filter by Region'' (clear_all_filters ui s))"
  have "set (snd (fold (region_body ui limits) (regions_explored ui limits s) (?s1, [])))
          \<subseteq> set (snd (?s1, [])) \<union> (\<Union>region \<in> set (regions_explored ui limits s). ?G region)"
    by (rule fold_chains_subset) (rule region_body_chains)
  then have "set (build_complete_filter_chains ui limits s)
          \<subseteq> (\<Union>region \<in> set (regions_explored ui limits s). ?G region)"
    by (simp add: build_complete_filter_chains_def explore_eq)
  with assms have "chain \<in> (\<Union>region \<in> set (regions_explored ui limits s). ?G region)"
    by (rule rev_subsetD)
  then show ?thesis by blast
qed


lemma regions_explored_subset:
  "set (regions_explored ui limits s) \<subseteq> explored ui limits ''region'' ''Filter by Region''"
  unfolding regions_explored_def by (rule subsetI) (rule in_explored)

lemma mk_chain_complete:
  assumes "region \<noteq> [] \<and> py_strip region = region" "area \<noteq> [] \<and> py_strip area = area"
    "distributor \<noteq> [] \<and> py_strip distributor = distributor"
    "territory \<noteq> [] \<and> py_strip territory = territory" "point \<noteq> [] \<and> py_strip point = point"
  shows "map fst (mk_chain region area distributor territory point) = dimensions \<and>
         (\<forall>(k, v) \<in> set (mk_chain region area distributor territory point).
            v \<noteq> [] \<and> py_strip v = v)"
  using assms by (simp add: mk_chain_def dimensions_def)

text \<open>
  C3. Every chain that \<^verbatim>\<open>build_complete_filter_chains\<close> returns has exactly the five
  keys region, area, distributor, territory and point, in this order, and each of its values
  is a non-empty string that is already stripped: the option texts are stripped and the
  empty ones dropped when a dropdown is read.
\<close>

theorem chains_complete:
  "\<forall>chain \<in> set (build_complete_filter_chains ui limits s).
     map fst chain = dimensions \<and> (\<forall>(k, v) \<in> set chain. v \<noteq> [] \<and> py_strip v = v)"
proof
  fix chain
  assume "chain \<in> set (build_complete_filter_chains ui limits s)"
  from build_chains [OF this] obtain region area distributor territory point where
    c: "chain = mk_chain region area distributor territory point" and
    r: "region \<in> set (regions_explored ui limits s)" and
    a: "area \<in> explored ui limits ''area'' ''Filter by Area''" and
    d: "distributor \<in> explored ui limits ''distributor'' ''Filter by Distribution house''" and
    t: "territory \<in> explored ui limits ''territory'' ''Filter by Territory''" and
    p: "point \<in> explored ui limits ''point'' ''Filter by Point''"
    by (elim exE conjE)
  from r have r': "region \<in> explored ui limits ''region'' ''Filter by Region''"
    using regions_explored_subset by (rule rev_subsetD)
  show "map fst chain = dimensions \<and> (\<forall>(k, v) \<in> set chain. v \<noteq> [] \<and> py_strip v = v)"
    unfolding c
    by (rule mk_chain_complete) (rule explored_nonempty, fact)+
qed

theorem chains_complete_witness:
  "build_complete_filter_chains example_ui no_limits [] =
     [mk_chain ''Dhaka'' ''Gulshan'' ''ABC Traders'' ''T1'' ''P1'',
      mk_chain ''Dhaka'' ''Gulshan'' ''ABC Traders'' ''T2'' ''P1'']
   \<and> list_all (\<lambda>chain. map fst chain = dimensions \<and> list_all (\<lambda>kv. snd kv \<noteq> []) chain)
        (build_complete_filter_chains example_ui no_limits [])"
proof -
  have run: "build_complete_filter_chains example_ui no_limits [] =
     [mk_chain ''Dhaka'' ''Gulshan'' ''ABC Traders'' ''T1'' ''P1'',
      mk_chain ''Dhaka'' ''Gulshan'' ''ABC Traders'' ''T2'' ''P1'']"
    by code_simp
  have "list_all (\<lambda>chain. map fst chain = dimensions \<and> list_all (\<lambda>kv. snd kv \<noteq> []) chain)
        (build_complete_filter_chains example_ui no_limits [])"
    using chains_complete [of example_ui no_limits "[]"]
    unfolding list_all_iff by fastforce
  with run show ?thesis by simp
qed


section \<open>An empty region dropdown\<close>

lemma apply_limit_Nil: "apply_limit limit [] = []"
  by (cases limit) (simp_all add: apply_limit_def py_slice_to_def)

lemma explore_no_regions:
  "regions_explored ui limits s = [] \<Longrightarrow>
     explore ui limits s =
       (snd (get_dropdown_options ui ''Filter by Region'' (clear_all_filters ui s)), [])"
  by (simp add: explore_eq)

text \<open>
  C9. When the region dropdown yields no option (it is empty, or reading it failed),
  \<^verbatim>\<open>build_complete_filter_chains\<close> returns the empty list; it does so after the one
  query, without touching the page again, and the model being a total function nothing is
  raised.
\<close>

theorem no_regions_no_chains:
  assumes "fst (get_dropdown_options ui ''Filter by Region'' (clear_all_filters ui s)) = []"
  shows "build_complete_filter_chains ui limits s = [] \<and>
         explore ui limits s =
           (snd (get_dropdown_options ui ''Filter by Region'' (clear_all_filters ui s)), [])"
proof -
  have "regions_explored ui limits s = []"
    by (simp add: regions_explored_def assms apply_limit_Nil)
  then show ?thesis
    by (simp add: build_complete_filter_chains_def explore_no_regions)
qed

theorem no_regions_no_chains_witness:
  "fst (get_dropdown_options (example_ui\<lparr>open_dropdown := (\<lambda>dropdown_name s. (None, s))\<rparr>)
        ''Filter by Region''
        (clear_all_filters (example_ui\<lparr>open_dropdown := (\<lambda>dropdown_name s. (None, s))\<rparr>) [])) = []
   \<and> build_complete_filter_chains
        (example_ui\<lparr>open_dropdown := (\<lambda>dropdown_name s. (None, s))\<rparr>) no_limits [] = []"
proof -
  have h: "fst (get_dropdown_options (example_ui\<lparr>open_dropdown := (\<lambda>dropdown_name s. (None, s))\<rparr>)
        ''Filter by Region''
        (clear_all_filters (example_ui\<lparr>open_dropdown := (\<lambda>dropdown_name s. (None, s))\<rparr>) [])) = []"
    by (simp add: get_dropdown_options_def)
  show ?thesis
    using h no_regions_no_chains [OF h, of no_limits] by simp
qed

section \<open>A limit of zero\<close>

lemma territory_body_limits:
  assumes "\<And>x (xs :: string list). apply_limit (l1 x) xs = apply_limit (l2 x) xs"
  shows "territory_body ui l1 region area distributor = territory_body ui l2 region area distributor"
  by (intro ext) (simp add: territory_body_def assms split: prod.split bool.split)

lemma distributor_body_limits:
  assumes "\<And>x (xs :: string list). apply_limit (l1 x) xs = apply_limit (l2 x) xs"
  shows "distributor_body ui l1 region area = distributor_body ui l2 region area"
  by (intro ext) (simp add: distributor_body_def assms territory_body_limits [OF assms] split: prod.split bool.split)

lemma area_body_limits:
  assumes "\<And>x (xs :: string list). apply_limit (l1 x) xs = apply_limit (l2 x) xs"
  shows "area_body ui l1 region = area_body ui l2 region"
  by (intro ext) (simp add: area_body_def assms distributor_body_limits [OF assms] split: prod.split bool.split)

lemma region_body_limits:
  assumes "\<And>x (xs :: string list). apply_limit (l1 x) xs = apply_limit (l2 x) xs"
  shows "region_body ui l1 = region_body ui l2"
  by (intro ext) (simp add: region_body_def assms area_body_limits [OF assms] split: prod.split bool.split)

lemma explore_limits:
  assumes "\<And>x (xs :: string list). apply_limit (l1 x) xs = apply_limit (l2 x) xs"
  shows "explore ui l1 s = explore ui l2 s"
  by (simp add: explore_def Let_def assms region_body_limits [OF assms] split: prod.split)

lemma apply_limit_upd_zero:
  "apply_limit ((limits(dname := Some 0)) x) xs = apply_limit ((limits(dname := None)) x) xs"
  by (simp add: apply_limit_def)

text \<open>
  C10. A limit of \<^verbatim>\<open>0\<close> is a false value for the guard \<^verbatim>\<open>if FILTER_LIMITS[dim]:\<close>,
  so the option list is not cut: the explorer behaves as with \<^verbatim>\<open>None\<close>, for every
  dimension, page and setting of the other limits. Any other integer cuts the list by the
  slice \<^verbatim>\<open>[:k]\<close>.
\<close>

theorem zero_limit_is_unbounded:
  "build_complete_filter_chains ui (limits(dname := Some 0)) s =
     build_complete_filter_chains ui (limits(dname := None)) s
   \<and> apply_limit (Some 0) xs = xs
   \<and> apply_limit None xs = xs
   \<and> (if k = 0 then apply_limit (Some k) xs = xs else apply_limit (Some k) xs = py_slice_to xs k)"
proof -
  have "explore ui (limits(dname := Some 0)) s = explore ui (limits(dname := None)) s"
    by (rule explore_limits) (rule apply_limit_upd_zero)
  then show ?thesis
    by (simp add: build_complete_filter_chains_def apply_limit_def)
qed

theorem zero_limit_is_unbounded_witness:
  "build_complete_filter_chains example_ui (no_limits(''territory'' := Some 0)) [] =
     [mk_chain ''Dhaka'' ''Gulshan'' ''ABC Traders'' ''T1'' ''P1'',
      mk_chain ''Dhaka'' ''Gulshan'' ''ABC Traders'' ''T2'' ''P1'']"
proof -
  have "build_complete_filter_chains example_ui (no_limits(''territory'' := None)) [] =
     [mk_chain ''Dhaka'' ''Gulshan'' ''ABC Traders'' ''T1'' ''P1'',
      mk_chain ''Dhaka'' ''Gulshan'' ''ABC Traders'' ''T2'' ''P1'']"
    by code_simp
  then show ?thesis
    using zero_limit_is_unbounded [THEN conjunct1, of example_ui no_limits "''territory''" "[]"]
    by simp
qed


section \<open>A selection that fails\<close>

lemma apply_selections_append:
  "apply_selections ui (before @ later) s =
     (case apply_selections ui before s of
        (True, s1) \<Rightarrow> apply_selections ui later s1
      | (False, s1) \<Rightarrow> (False, s1))"
proof (induction before arbitrary: s)
  case Nil
  show ?case by simp
next
  case (Cons sel rest)
  obtain dropdown_name option_text where sel: "sel = (dropdown_name, option_text)"
    by (cases sel)
  show ?case
  proof (cases "select_dropdown_option ui dropdown_name option_text s")
    case (Pair ok s1)
    show ?thesis
      by (cases ok) (simp_all add: sel Pair Cons.IH)
  qed
qed

lemma reapply_fails:
  assumes "apply_selections ui before (clear_all_filters ui s) = (True, s1)"
    and "\<not> fst (select_dropdown_option ui dropdown_name option_text s1)"
  shows "reapply ui (before @ (dropdown_name, option_text) # rest) s =
           (False, snd (select_dropdown_option ui dropdown_name option_text s1))"
proof -
  obtain ok s2 where sel: "select_dropdown_option ui dropdown_name option_text s1 = (ok, s2)"
    by (cases "select_dropdown_option ui dropdown_name option_text s1")
  with assms(2) have "\<not> ok" by simp
  then show ?thesis
    by (simp add: reapply_def apply_selections_append assms(1) sel)
qed

lemma loop_level_skipped:
  assumes "reapply ui selections (fst st) = (False, s1)"
  shows "loop_level ui selections dropdown_name limit inner st = (s1, snd st)"
  by (simp add: loop_level_def assms)

lemma territory_body_skipped:
  assumes "reapply ui [(''Filter by Region'', region), (''Filter by Area'', area),
              (''Filter by Distribution house'', distributor),
              (''Filter by Territory'', territory)] (fst st) = (False, s1)"
  shows "territory_body ui limits region area distributor territory st = (s1, snd st)"
  by (simp add: territory_body_def assms)

lemma fold_prefix:
  assumes "\<And>x st. prefix (snd st) (snd (f x st))"
  shows "prefix (snd st) (snd (fold f xs st))"
proof (induction xs arbitrary: st)
  case Nil
  show ?case by simp
next
  case (Cons x xs)
  have "prefix (snd st) (snd (f x st))" by (rule assms)
  also have "prefix (snd (f x st)) (snd (fold f xs (f x st)))" by (rule Cons.IH)
  finally show ?case by simp
qed

lemma territory_body_prefix:
  "prefix (snd st) (snd (territory_body ui limits region area distributor territory st))"
  by (cases rule: territory_body_cases [of ui limits region area distributor territory st])
    simp_all

lemma loop_level_prefix:
  assumes "\<And>x st. prefix (snd st) (snd (inner x st))"
  shows "prefix (snd st) (snd (loop_level ui selections dropdown_name limit inner st))"
proof (cases rule: loop_level_cases [of ui selections st dropdown_name limit inner])
  case skipped
  then show ?thesis by simp
next
  case (entered s1)
  show ?thesis
    unfolding entered(2)
    using fold_prefix [of inner "(snd (get_dropdown_options ui dropdown_name s1), snd st)", OF assms]
    by simp
qed

lemma distributor_body_prefix:
  "prefix (snd st) (snd (distributor_body ui limits region area distributor st))"
  unfolding distributor_body_level by (rule loop_level_prefix) (rule territory_body_prefix)

lemma area_body_prefix:
  "prefix (snd st) (snd (area_body ui limits region area st))"
  unfolding area_body_level by (rule loop_level_prefix) (rule distributor_body_prefix)

lemma region_body_prefix:
  "prefix (snd st) (snd (region_body ui limits region st))"
  unfolding region_body_level by (rule loop_level_prefix) (rule area_body_prefix)

lemma fold_split: "fold f (xs @ x # ys) st = fold f ys (f x (fold f xs st))"
  by simp

lemma explore_at_region:
  assumes "at_region ui limits s earlier region later st"
  shows "explore ui limits s =
           fold (region_body ui limits) later (region_body ui limits region st)"
proof -
  obtain regions s1 where
    q: "get_dropdown_options ui ''Filter by Region'' (clear_all_filters ui s) = (regions, s1)"
    by (cases "get_dropdown_options ui ''Filter by Region'' (clear_all_filters ui s)")
  from assms have cut: "apply_limit (limits ''region'') regions = earlier @ region # later"
    and st: "st = fold (region_body ui limits) earlier (s1, [])"
    by (simp_all add: at_region_def q)
  have "explore ui limits s =
      fold (region_body ui limits) (earlier @ region # later) (s1, [])"
    by (simp add: explore_def q Let_def cut)
  then show ?thesis
    unfolding fold_split st .
qed

lemma loop_level_at:
  assumes "reapply ui selections (fst st0) = (True, s1)"
    and "get_dropdown_options ui dropdown_name s1 = (options, s2)"
    and "apply_limit limit options = earlier @ x # later"
  shows "loop_level ui selections dropdown_name limit inner st0 =
           fold inner later (inner x (fold inner earlier (s2, snd st0)))"
  by (simp add: loop_level_def assms)

lemma region_body_at_area:
  assumes "at_area ui limits region st0 earlier area later st"
  shows "region_body ui limits region st0 =
           fold (area_body ui limits region) later (area_body ui limits region area st)"
proof (cases "reapply ui [(''Filter by Region'', region)] (fst st0)")
  case (Pair ok s1)
  with assms have ok: "ok" by (cases ok) (simp_all add: at_area_def)
  obtain areas s2 where q: "get_dropdown_options ui ''Filter by Area'' s1 = (areas, s2)"
    by (cases "get_dropdown_options ui ''Filter by Area'' s1")
  from assms have cut: "apply_limit (limits ''area'') areas = earlier @ area # later"
    and st: "st = fold (area_body ui limits region) earlier (s2, snd st0)"
    by (simp_all add: at_area_def Pair ok q)
  show ?thesis
    unfolding region_body_level st
    using Pair ok q cut by (intro loop_level_at) simp_all
qed

lemma area_body_at_distributor:
  assumes "at_distributor ui limits region area st0 earlier distributor later st"
  shows "area_body ui limits region area st0 =
           fold (distributor_body ui limits region area) later
             (distributor_body ui limits region area distributor st)"
proof (cases "reapply ui [(''Filter by Region'', region), (''Filter by Area'', area)] (fst st0)")
  case (Pair ok s1)
  with assms have ok: "ok" by (cases ok) (simp_all add: at_distributor_def)
  obtain distributors s2 where
    q: "get_dropdown_options ui ''Filter by Distribution house'' s1 = (distributors, s2)"
    by (cases "get_dropdown_options ui ''Filter by Distribution house'' s1")
  from assms have
    cut: "apply_limit (limits ''distributor'') distributors = earlier @ distributor # later"
    and st: "st = fold (distributor_body ui limits region area) earlier (s2, snd st0)"
    by (simp_all add: at_distributor_def Pair ok q)
  show ?thesis
    unfolding area_body_level st
    using Pair ok q cut by (intro loop_level_at) simp_all
qed

lemma distributor_body_at_territory:
  assumes "at_territory ui limits region area distributor st0 earlier territory later st"
  shows "distributor_body ui limits region area distributor st0 =
           fold (territory_body ui limits region area distributor) later
             (territory_body ui limits region area distributor territory st)"
proof (cases "reapply ui [(''Filter by Region'', region), (''Filter by Area'', area),
              (''Filter by Distribution house'', distributor)] (fst st0)")
  case (Pair ok s1)
  with assms have ok: "ok" by (cases ok) (simp_all add: at_territory_def)
  obtain territories s2 where
    q: "get_dropdown_options ui ''Filter by Territory'' s1 = (territories, s2)"
    by (cases "get_dropdown_options ui ''Filter by Territory'' s1")
  from assms have
    cut: "apply_limit (limits ''territory'') territories = earlier @ territory # later"
    and st: "st = fold (territory_body ui limits region area distributor) earlier (s2, snd st0)"
    by (simp_all add: at_territory_def Pair ok q)
  show ?thesis
    unfolding distributor_body_level st
    using Pair ok q cut by (intro loop_level_at) simp_all
qed

lemma fold_region_prefix:
  "prefix (snd st) (snd (fold (region_body ui limits) regions st))"
  by (rule fold_prefix) (rule region_body_prefix)

lemma fold_area_prefix:
  "prefix (snd st) (snd (fold (area_body ui limits region) areas st))"
  by (rule fold_prefix) (rule area_body_prefix)

lemma fold_distributor_prefix:
  "prefix (snd st) (snd (fold (distributor_body ui limits region area) distributors st))"
  by (rule fold_prefix) (rule distributor_body_prefix)

lemma fold_territory_prefix:
  "prefix (snd st) (snd (fold (territory_body ui limits region area distributor) territories st))"
  by (rule fold_prefix) (rule territory_body_prefix)

text \<open>
  C8. Let the run of \<^verbatim>\<open>build_complete_filter_chains\<close> come to a branch: a region, an
  area of a region, a distributor of an area or a territory of a distributor, on the page
  \<open>p\<close> with the chains \<open>built\<close> so far. Let one selection of the prefix that the
  body of this branch applies again fail: the selections before it succeed and
  \<^verbatim>\<open>select_dropdown_option\<close> returns \<^verbatim>\<open>False\<close> for it, leaving the page \<open>left\<close>.
  Then the explorer returns what the loops over the options that are still to do, at this
  level and at every level above, build from the page \<open>left\<close> and the chains \<open>built\<close>:
  the branch adds nothing, its siblings are all explored, and the chains built before are
  the beginning of the list returned.
\<close>

theorem failed_selection_skips_branch:
  assumes "selections = before @ (dropdown_name, option_text) # rest"
    and "apply_selections ui before (clear_all_filters ui p) = (True, s1)"
    and "\<not> fst (select_dropdown_option ui dropdown_name option_text s1)"
    and "left = snd (select_dropdown_option ui dropdown_name option_text s1)"
  shows
    "(selections = [(''Filter by Region'', region)] \<longrightarrow>
      at_region ui limits s earlier_regions region later_regions (p, built) \<longrightarrow>
        build_complete_filter_chains ui limits s =
          snd (fold (region_body ui limits) later_regions (left, built))
        \<and> prefix built (build_complete_filter_chains ui limits s))
   \<and> (selections = [(''Filter by Region'', region), (''Filter by Area'', area)] \<longrightarrow>
      at_region ui limits s earlier_regions region later_regions st_region \<longrightarrow>
      at_area ui limits region st_region earlier_areas area later_areas (p, built) \<longrightarrow>
        build_complete_filter_chains ui limits s =
          snd (fold (region_body ui limits) later_regions
                (fold (area_body ui limits region) later_areas (left, built)))
        \<and> prefix built (build_complete_filter_chains ui limits s))
   \<and> (selections = [(''Filter by Region'', region), (''Filter by Area'', area),
          (''Filter by Distribution house'', distributor)] \<longrightarrow>
      at_region ui limits s earlier_regions region later_regions st_region \<longrightarrow>
      at_area ui limits region st_region earlier_areas area later_areas st_area \<longrightarrow>
      at_distributor ui limits region area st_area earlier_distributors distributor
        later_distributors (p, built) \<longrightarrow>
        build_complete_filter_chains ui limits s =
          snd (fold (region_body ui limits) later_regions
                (fold (area_body ui limits region) later_areas
                  (fold (distributor_body ui limits region area) later_distributors
                    (left, built))))
        \<and> prefix built (build_complete_filter_chains ui limits s))
   \<and> (selections = [(''Filter by Region'', region), (''Filter by Area'', area),
          (''Filter by Distribution house'', distributor),
          (''Filter by Territory'', territory)] \<longrightarrow>
      at_region ui limits s earlier_regions region later_regions st_region \<longrightarrow>
      at_area ui limits region st_region earlier_areas area later_areas st_area \<longrightarrow>
      at_distributor ui limits region area st_area earlier_distributors distributor
        later_distributors st_distributor \<longrightarrow>
      at_territory ui limits region area distributor st_distributor earlier_territories
        territory later_territories (p, built) \<longrightarrow>
        build_complete_filter_chains ui limits s =
          snd (fold (region_body ui limits) later_regions
                (fold (area_body ui limits region) later_areas
                  (fold (distributor_body ui limits region area) later_distributors
                    (fold (territory_body ui limits region area distributor) later_territories
                      (left, built)))))
        \<and> prefix built (build_complete_filter_chains ui limits s))"
proof -
  have failed: "reapply ui selections (fst (p, built)) = (False, left)"
    unfolding assms(1,4) fst_conv using assms(2,3) by (rule reapply_fails)
  have r: "region_body ui limits region (p, built) = (left, built)"
    if "selections = [(''Filter by Region'', region)]"
    unfolding region_body_level using failed that by (simp add: loop_level_skipped)
  have a: "area_body ui limits region area (p, built) = (left, built)"
    if "selections = [(''Filter by Region'', region), (''Filter by Area'', area)]"
    unfolding area_body_level using failed that by (simp add: loop_level_skipped)
  have d: "distributor_body ui limits region area distributor (p, built) = (left, built)"
    if "selections = [(''Filter by Region'', region), (''Filter by Area'', area),
          (''Filter by Distribution house'', distributor)]"
    unfolding distributor_body_level using failed that by (simp add: loop_level_skipped)
  have t: "territory_body ui limits region area distributor territory (p, built) = (left, built)"
    if "selections = [(''Filter by Region'', region), (''Filter by Area'', area),
          (''Filter by Distribution house'', distributor),
          (''Filter by Territory'', territory)]"
    using failed that by (simp add: territory_body_skipped)
  have pr: "prefix built (snd (fold (region_body ui limits) later_regions st))"
    if "prefix built (snd st)" for st
    using that fold_region_prefix [of st ui limits later_regions] by (rule prefix_order.trans)
  have pa: "prefix built (snd (fold (area_body ui limits region) later_areas st))"
    if "prefix built (snd st)" for st
    using that fold_area_prefix [of st ui limits region later_areas] by (rule prefix_order.trans)
  have pd: "prefix built
      (snd (fold (distributor_body ui limits region area) later_distributors st))"
    if "prefix built (snd st)" for st
    using that fold_distributor_prefix [of st ui limits region area later_distributors]
    by (rule prefix_order.trans)
  have pt: "prefix built
      (snd (fold (territory_body ui limits region area distributor) later_territories st))"
    if "prefix built (snd st)" for st
    using that fold_territory_prefix [of st ui limits region area distributor later_territories]
    by (rule prefix_order.trans)
  have base: "prefix built (snd (left, built))" by simp
  have c1: "build_complete_filter_chains ui limits s =
          snd (fold (region_body ui limits) later_regions (left, built))
        \<and> prefix built (build_complete_filter_chains ui limits s)"
    if sel: "selections = [(''Filter by Region'', region)]"
      and reg: "at_region ui limits s earlier_regions region later_regions (p, built)"
  proof -
    have "build_complete_filter_chains ui limits s =
          snd (fold (region_body ui limits) later_regions (left, built))"
      by (simp add: build_complete_filter_chains_def explore_at_region [OF reg] r [OF sel])
    then show ?thesis using pr [OF base] by simp
  qed
  have c2: "build_complete_filter_chains ui limits s =
          snd (fold (region_body ui limits) later_regions
                (fold (area_body ui limits region) later_areas (left, built)))
        \<and> prefix built (build_complete_filter_chains ui limits s)"
    if sel: "selections = [(''Filter by Region'', region), (''Filter by Area'', area)]"
      and reg: "at_region ui limits s earlier_regions region later_regions st_region"
      and ar: "at_area ui limits region st_region earlier_areas area later_areas (p, built)"
  proof -
    have "build_complete_filter_chains ui limits s =
          snd (fold (region_body ui limits) later_regions
                (fold (area_body ui limits region) later_areas (left, built)))"
      by (simp add: build_complete_filter_chains_def explore_at_region [OF reg]
          region_body_at_area [OF ar] a [OF sel])
    then show ?thesis using pr [OF pa [OF base]] by simp
  qed
  have c3: "build_complete_filter_chains ui limits s =
          snd (fold (region_body ui limits) later_regions
                (fold (area_body ui limits region) later_areas
                  (fold (distributor_body ui limits region area) later_distributors
                    (left, built))))
        \<and> prefix built (build_complete_filter_chains ui limits s)"
    if sel: "selections = [(''Filter by Region'', region), (''Filter by Area'', area),
          (''Filter by Distribution house'', distributor)]"
      and reg: "at_region ui limits s earlier_regions region later_regions st_region"
      and ar: "at_area ui limits region st_region earlier_areas area later_areas st_area"
      and di: "at_distributor ui limits region area st_area earlier_distributors distributor
        later_distributors (p, built)"
  proof -
    have "build_complete_filter_chains ui limits s =
          snd (fold (region_body ui limits) later_regions
                (fold (area_body ui limits region) later_areas
                  (fold (distributor_body ui limits region area) later_distributors
                    (left, built))))"
      by (simp add: build_complete_filter_chains_def explore_at_region [OF reg]
          region_body_at_area [OF ar] area_body_at_distributor [OF di] d [OF sel])
    then show ?thesis using pr [OF pa [OF pd [OF base]]] by simp
  qed
  have c4: "build_complete_filter_chains ui limits s =
          snd (fold (region_body ui limits) later_regions
                (fold (area_body ui limits region) later_areas
                  (fold (distributor_body ui limits region area) later_distributors
                    (fold (territory_body ui limits region area distributor) later_territories
                      (left, built)))))
        \<and> prefix built (build_complete_filter_chains ui limits s)"
    if sel: "selections = [(''Filter by Region'', region), (''Filter by Area'', area),
          (''Filter by Distribution house'', distributor),
          (''Filter by Territory'', territory)]"
      and reg: "at_region ui limits s earlier_regions region later_regions st_region"
      and ar: "at_area ui limits region st_region earlier_areas area later_areas st_area"
      and di: "at_distributor ui limits region area st_area earlier_distributors distributor
        later_distributors st_distributor"
      and te: "at_territory ui limits region area distributor st_distributor earlier_territories
        territory later_territories (p, built)"
  proof -
    have "build_complete_filter_chains ui limits s =
          snd (fold (region_body ui limits) later_regions
                (fold (area_body ui limits region) later_areas
                  (fold (distributor_body ui limits region area) later_distributors
                    (fold (territory_body ui limits region area distributor) later_territories
                      (left, built)))))"
      by (simp add: build_complete_filter_chains_def explore_at_region [OF reg]
          region_body_at_area [OF ar] area_body_at_distributor [OF di]
          distributor_body_at_territory [OF te] t [OF sel])
    then show ?thesis using pr [OF pa [OF pd [OF pt [OF base]]]] by simp
  qed
  show ?thesis
    using c1 c2 c3 c4 by blast
qed

theorem failed_selection_skips_branch_witness:
  "\<not> fst (select_dropdown_option rejecting_ui ''Filter by Region'' ''Ghost'' [])
   \<and> at_region rejecting_ui no_limits [] [] ''Ghost'' [''Dhaka''] ([], [])
   \<and> \<not> fst (select_dropdown_option rejecting_ui ''Filter by Territory'' ''T1''
          [(''Filter by Region'', 1), (''Filter by Area'', 0),
           (''Filter by Distribution house'', 0)])
   \<and> at_territory rejecting_ui no_limits ''Dhaka'' ''Gulshan'' ''ABC Traders''
        ([(''Filter by Region'', 1), (''Filter by Area'', 0)], []) [] ''T1'' [''T2'']
        ([(''Filter by Region'', 1), (''Filter by Area'', 0),
          (''Filter by Distribution house'', 0)], [])
   \<and> build_complete_filter_chains rejecting_ui no_limits [] =
       [mk_chain ''Dhaka'' ''Gulshan'' ''ABC Traders'' ''T2'' ''P1'']"
proof -
  let ?ui = rejecting_ui
  let ?after_region = "[(''Filter by Region'', 1 :: nat)]"
  let ?after_area = "[(''Filter by Region'', 1 :: nat), (''Filter by Area'', 0)]"
  let ?after_distributor = "[(''Filter by Region'', 1 :: nat), (''Filter by Area'', 0),
           (''Filter by Distribution house'', 0)]"
  have sel1: "[(''Filter by Region'', ''Ghost'')] = [] @ (''Filter by Region'', ''Ghost'') # []"
    by simp
  have start1: "apply_selections ?ui [] (clear_all_filters ?ui []) = (True, [])"
    by code_simp
  have fails1: "\<not> fst (select_dropdown_option ?ui ''Filter by Region'' ''Ghost'' [])"
    by code_simp
  have left1: "[] = snd (select_dropdown_option ?ui ''Filter by Region'' ''Ghost'' [])"
    by code_simp
  have reg1: "at_region ?ui no_limits [] [] ''Ghost'' [''Dhaka''] ([], [])"
    by code_simp
  have run1: "snd (fold (region_body ?ui no_limits) [''Dhaka''] ([], [])) =
      [mk_chain ''Dhaka'' ''Gulshan'' ''ABC Traders'' ''T2'' ''P1'']"
    by code_simp
  have first: "build_complete_filter_chains ?ui no_limits [] =
      [mk_chain ''Dhaka'' ''Gulshan'' ''ABC Traders'' ''T2'' ''P1'']"
    using failed_selection_skips_branch [OF sel1 start1 fails1 left1, THEN conjunct1,
        of "''Ghost''" no_limits "[]" "[]" "[''Dhaka'']" "[]"]
      reg1 run1
    by simp
  have sel4: "[(''Filter by Region'', ''Dhaka''), (''Filter by Area'', ''Gulshan''),
        (''Filter by Distribution house'', ''ABC Traders''), (''Filter by Territory'', ''T1'')] =
      [(''Filter by Region'', ''Dhaka''), (''Filter by Area'', ''Gulshan''),
        (''Filter by Distribution house'', ''ABC Traders'')] @ (''Filter by Territory'', ''T1'') # []"
    by simp
  have start4: "apply_selections ?ui [(''Filter by Region'', ''Dhaka''), (''Filter by Area'', ''Gulshan''),
        (''Filter by Distribution house'', ''ABC Traders'')]
        (clear_all_filters ?ui ?after_distributor) = (True, ?after_distributor)"
    by code_simp
  have fails4: "\<not> fst (select_dropdown_option ?ui ''Filter by Territory'' ''T1'' ?after_distributor)"
    by code_simp
  have left4: "?after_distributor =
      snd (select_dropdown_option ?ui ''Filter by Territory'' ''T1'' ?after_distributor)"
    by code_simp
  have reg4: "at_region ?ui no_limits [] [''Ghost''] ''Dhaka'' [] ([], [])"
    by code_simp
  have area4: "at_area ?ui no_limits ''Dhaka'' ([], []) [] ''Gulshan'' [] (?after_region, [])"
    by code_simp
  have dist4: "at_distributor ?ui no_limits ''Dhaka'' ''Gulshan'' (?after_region, [])
      [] ''ABC Traders'' [] (?after_area, [])"
    by code_simp
  have terr4: "at_territory ?ui no_limits ''Dhaka'' ''Gulshan'' ''ABC Traders'' (?after_area, [])
      [] ''T1'' [''T2''] (?after_distributor, [])"
    by code_simp
  have run4: "snd (fold (territory_body ?ui no_limits ''Dhaka'' ''Gulshan'' ''ABC Traders'') [''T2'']
      (?after_distributor, [])) = [mk_chain ''Dhaka'' ''Gulshan'' ''ABC Traders'' ''T2'' ''P1'']"
    by code_simp
  have "build_complete_filter_chains ?ui no_limits [] =
      snd (fold (region_body ?ui no_limits) []
        (fold (area_body ?ui no_limits ''Dhaka'') []
          (fold (distributor_body ?ui no_limits ''Dhaka'' ''Gulshan'') []
            (fold (territory_body ?ui no_limits ''Dhaka'' ''Gulshan'' ''ABC Traders'') [''T2'']
              (?after_distributor, [])))))"
    using failed_selection_skips_branch [OF sel4 start4 fails4 left4, THEN conjunct2,
        THEN conjunct2, THEN conjunct2]
      reg4 area4 dist4 terr4
    by blast
  then have fourth: "build_complete_filter_chains ?ui no_limits [] =
      [mk_chain ''Dhaka'' ''Gulshan'' ''ABC Traders'' ''T2'' ''P1'']"
    using run4 by simp
  show ?thesis
    using fails1 reg1 fails4 terr4 first fourth by simp
qed


section \<open>The number of chains\<close>

lemma cap_or_domain_length:
  assumes "cap_or_domain ui limits dname dropdown_name n"
  shows "length (apply_limit (limits dname) (fst (get_dropdown_options ui dropdown_name s))) \<le> n"
proof (cases "limits dname")
  case None
  with assms have "domain_bound ui dropdown_name n" by (simp add: cap_or_domain_def)
  then show ?thesis by (simp add: None apply_limit_def domain_bound_def)
next
  case (Some k)
  show ?thesis
  proof (cases "0 < k")
    case True
    with assms Some have "n = nat k" by (simp add: cap_or_domain_def)
    then show ?thesis by (simp add: Some True apply_limit_cap)
  next
    case False
    with assms Some have "domain_bound ui dropdown_name n" by (simp add: cap_or_domain_def)
    then have "length (fst (get_dropdown_options ui dropdown_name s)) \<le> n"
      by (simp add: domain_bound_def)
    with length_apply_limit [of "limits dname" "fst (get_dropdown_options ui dropdown_name s)"]
    show ?thesis by linarith
  qed
qed

lemma fold_length:
  assumes "\<And>x st. length (snd (f x st)) \<le> length (snd st) + b"
  shows "length (snd (fold f xs st)) \<le> length (snd st) + length xs * b"
proof (induction xs arbitrary: st)
  case Nil
  show ?case by simp
next
  case (Cons x xs)
  have "length (snd (fold f xs (f x st))) \<le> length (snd (f x st)) + length xs * b"
    by (rule Cons.IH)
  also have "\<dots> \<le> (length (snd st) + b) + length xs * b"
    using assms [of x st] by simp
  finally show ?case by simp
qed

lemma territory_body_length:
  assumes "cap_or_domain ui limits ''point'' ''Filter by Point'' n"
  shows "length (snd (territory_body ui limits region area distributor territory st))
           \<le> length (snd st) + n"
proof (cases rule: territory_body_cases [of ui limits region area distributor territory st])
  case skipped
  then show ?thesis by simp
next
  case (entered s1)
  show ?thesis
    unfolding entered using cap_or_domain_length [OF assms, of s1] by simp
qed

lemma loop_level_length:
  assumes inner: "\<And>x st. length (snd (inner x st)) \<le> length (snd st) + b"
    and cap: "cap_or_domain ui limits dname dropdown_name n"
  shows "length (snd (loop_level ui selections dropdown_name (limits dname) inner st))
           \<le> length (snd st) + n * b"
proof (cases rule: loop_level_cases [of ui selections st dropdown_name "limits dname" inner])
  case skipped
  then show ?thesis by simp
next
  case (entered s1)
  let ?xs = "apply_limit (limits dname) (fst (get_dropdown_options ui dropdown_name s1))"
  have "length (snd (fold inner ?xs (snd (get_dropdown_options ui dropdown_name s1), snd st)))
          \<le> length (snd st) + length ?xs * b"
    using fold_length [where f = inner and b = b and xs = ?xs
        and st = "(snd (get_dropdown_options ui dropdown_name s1), snd st)", OF inner] by simp
  also have "length ?xs * b \<le> n * b"
    using cap_or_domain_length [OF cap, of s1] by (rule mult_le_mono1)
  finally show ?thesis
    unfolding entered(2) by simp
qed

lemma build_length:
  assumes r: "cap_or_domain ui limits ''region'' ''Filter by Region'' n_region"
    and a: "cap_or_domain ui limits ''area'' ''Filter by Area'' n_area"
    and d: "cap_or_domain ui limits ''distributor'' ''Filter by Distribution house'' n_distributor"
    and t: "cap_or_domain ui limits ''territory'' ''Filter by Territory'' n_territory"
    and p: "cap_or_domain ui limits ''point'' ''Filter by Point'' n_point"
  shows "length (build_complete_filter_chains ui limits s)
           \<le> n_region * n_area * n_distributor * n_territory * n_point"
proof -
  have tb: "length (snd (territory_body ui limits region area distributor territory st))
           \<le> length (snd st) + n_point" for region area distributor territory st
    using p by (rule territory_body_length)
  have db: "length (snd (distributor_body ui limits region area distributor st))
           \<le> length (snd st) + n_territory * n_point" for region area distributor st
    unfolding distributor_body_level by (rule loop_level_length [OF tb t])
  have ab: "length (snd (area_body ui limits region area st))
           \<le> length (snd st) + n_distributor * (n_territory * n_point)" for region area st
    unfolding area_body_level by (rule loop_level_length [OF db d])
  have rb: "length (snd (region_body ui limits region st))
           \<le> length (snd st) + n_area * (n_distributor * (n_territory * n_point))" for region st
    unfolding region_body_level by (rule loop_level_length [OF ab a])
  let ?s1 = "snd (get_dropdown_options ui ''Filter by Region'' (clear_all_filters ui s))"
  have "length (snd (fold (region_body ui limits) (regions_explored ui limits s) (?s1, [])))
          \<le> length (snd (?s1, [] :: pydict list)) + length (regions_explored ui limits s) *
               (n_area * (n_distributor * (n_territory * n_point)))"
    by (rule fold_length) (rule rb)
  also have "length (regions_explored ui limits s) * (n_area * (n_distributor * (n_territory * n_point)))
          \<le> n_region * (n_area * (n_distributor * (n_territory * n_point)))"
    unfolding regions_explored_def
    using cap_or_domain_length [OF r] by (rule mult_le_mono1)
  finally have "length (snd (fold (region_body ui limits) (regions_explored ui limits s) (?s1, [])))
          \<le> n_region * n_area * n_distributor * n_territory * n_point"
    by (simp add: mult.assoc)
  then show ?thesis
    by (simp add: build_complete_filter_chains_def explore_eq)
qed

section \<open>The loop that built a chain\<close>

lemma fold_origin:
  assumes "x \<in> set (snd (fold f xs st))" and "x \<notin> set (snd st)"
  shows "\<exists>earlier y later. xs = earlier @ y # later \<and>
           x \<in> set (snd (f y (fold f earlier st))) \<and> x \<notin> set (snd (fold f earlier st))"
  using assms
proof (induction xs rule: rev_induct)
  case Nil
  then show ?case by simp
next
  case (snoc y ys)
  show ?case
  proof (cases "x \<in> set (snd (fold f ys st))")
    case True
    from snoc.IH [OF True snoc.prems(2)] obtain earlier z later where
      "ys = earlier @ z # later" "x \<in> set (snd (f z (fold f earlier st)))"
      "x \<notin> set (snd (fold f earlier st))"
      by blast
    then have "ys @ [y] = earlier @ z # (later @ [y]) \<and>
        x \<in> set (snd (f z (fold f earlier st))) \<and> x \<notin> set (snd (fold f earlier st))"
      by simp
    then show ?thesis by blast
  next
    case False
    have "ys @ [y] = ys @ y # [] \<and> x \<in> set (snd (f y (fold f ys st))) \<and>
        x \<notin> set (snd (fold f ys st))"
      using snoc.prems(1) False by simp
    then show ?thesis by blast
  qed
qed

lemma loop_level_origin:
  assumes "x \<in> set (snd (loop_level ui selections dropdown_name limit inner st0))"
    and "x \<notin> set (snd st0)"
  shows "\<exists>s1 options s2 earlier y later.
           reapply ui selections (fst st0) = (True, s1) \<and>
           get_dropdown_options ui dropdown_name s1 = (options, s2) \<and>
           apply_limit limit options = earlier @ y # later \<and>
           x \<in> set (snd (inner y (fold inner earlier (s2, snd st0)))) \<and>
           x \<notin> set (snd (fold inner earlier (s2, snd st0)))"
proof (cases "reapply ui selections (fst st0)")
  case (Pair ok s1)
  show ?thesis
  proof (cases ok)
    case False
    with Pair assms show ?thesis by (simp add: loop_level_def)
  next
    case True
    obtain options s2 where q: "get_dropdown_options ui dropdown_name s1 = (options, s2)"
      by (cases "get_dropdown_options ui dropdown_name s1")
    have "loop_level ui selections dropdown_name limit inner st0 =
        fold inner (apply_limit limit options) (s2, snd st0)"
      by (simp add: loop_level_def Pair True q)
    with assms(1) have "x \<in> set (snd (fold inner (apply_limit limit options) (s2, snd st0)))"
      by simp
    moreover have "x \<notin> set (snd (s2, snd st0))"
      using assms(2) by simp
    ultimately obtain earlier y later where
      "apply_limit limit options = earlier @ y # later"
      "x \<in> set (snd (inner y (fold inner earlier (s2, snd st0))))"
      "x \<notin> set (snd (fold inner earlier (s2, snd st0)))"
      using fold_origin [of x inner "apply_limit limit options" "(s2, snd st0)"] by blast
    moreover from Pair True have "reapply ui selections (fst st0) = (True, s1)"
      by simp
    ultimately have "reapply ui selections (fst st0) = (True, s1) \<and>
        get_dropdown_options ui dropdown_name s1 = (options, s2) \<and>
        apply_limit limit options = earlier @ y # later \<and>
        x \<in> set (snd (inner y (fold inner earlier (s2, snd st0)))) \<and>
        x \<notin> set (snd (fold inner earlier (s2, snd st0)))"
      using q by simp
    then show ?thesis by (intro exI)
  qed
qed

lemma region_body_origin:
  assumes "chain \<in> set (snd (region_body ui limits region st0))"
    and "chain \<notin> set (snd st0)"
  shows "\<exists>earlier area later st.
           at_area ui limits region st0 earlier area later st \<and>
           chain \<in> set (snd (area_body ui limits region area st)) \<and> chain \<notin> set (snd st)"
proof -
  from loop_level_origin [OF assms(1) [unfolded region_body_level] assms(2)]
  obtain s1 options s2 earlier area later where
    "reapply ui [(''Filter by Region'', region)] (fst st0) = (True, s1)"
    "get_dropdown_options ui ''Filter by Area'' s1 = (options, s2)"
    "apply_limit (limits ''area'') options = earlier @ area # later"
    "chain \<in> set (snd (area_body ui limits region area
        (fold (area_body ui limits region) earlier (s2, snd st0))))"
    "chain \<notin> set (snd (fold (area_body ui limits region) earlier (s2, snd st0)))"
    by blast
  then have "at_area ui limits region st0 earlier area later
        (fold (area_body ui limits region) earlier (s2, snd st0)) \<and>
      chain \<in> set (snd (area_body ui limits region area
        (fold (area_body ui limits region) earlier (s2, snd st0)))) \<and>
      chain \<notin> set (snd (fold (area_body ui limits region) earlier (s2, snd st0)))"
    by (simp add: at_area_def)
  then show ?thesis by blast
qed

lemma area_body_origin:
  assumes "chain \<in> set (snd (area_body ui limits region area st0))"
    and "chain \<notin> set (snd st0)"
  shows "\<exists>earlier distributor later st.
           at_distributor ui limits region area st0 earlier distributor later st \<and>
           chain \<in> set (snd (distributor_body ui limits region area distributor st)) \<and>
           chain \<notin> set (snd st)"
proof -
  from loop_level_origin [OF assms(1) [unfolded area_body_level] assms(2)]
  obtain s1 options s2 earlier distributor later where
    "reapply ui [(''Filter by Region'', region), (''Filter by Area'', area)] (fst st0) = (True, s1)"
    "get_dropdown_options ui ''Filter by Distribution house'' s1 = (options, s2)"
    "apply_limit (limits ''distributor'') options = earlier @ distributor # later"
    "chain \<in> set (snd (distributor_body ui limits region area distributor
        (fold (distributor_body ui limits region area) earlier (s2, snd st0))))"
    "chain \<notin> set (snd (fold (distributor_body ui limits region area) earlier (s2, snd st0)))"
    by blast
  then have "at_distributor ui limits region area st0 earlier distributor later
        (fold (distributor_body ui limits region area) earlier (s2, snd st0)) \<and>
      chain \<in> set (snd (distributor_body ui limits region area distributor
        (fold (distributor_body ui limits region area) earlier (s2, snd st0)))) \<and>
      chain \<notin> set (snd (fold (distributor_body ui limits region area) earlier (s2, snd st0)))"
    by (simp add: at_distributor_def)
  then show ?thesis by blast
qed

lemma distributor_body_origin:
  assumes "chain \<in> set (snd (distributor_body ui limits region area distributor st0))"
    and "chain \<notin> set (snd st0)"
  shows "\<exists>earlier territory later st.
           at_territory ui limits region area distributor st0 earlier territory later st \<and>
           chain \<in> set (snd (territory_body ui limits region area distributor territory st)) \<and>
           chain \<notin> set (snd st)"
proof -
  from loop_level_origin [OF assms(1) [unfolded distributor_body_level] assms(2)]
  obtain s1 options s2 earlier territory later where
    "reapply ui [(''Filter by Region'', region), (''Filter by Area'', area),
       (''Filter by Distribution house'', distributor)] (fst st0) = (True, s1)"
    "get_dropdown_options ui ''Filter by Territory'' s1 = (options, s2)"
    "apply_limit (limits ''territory'') options = earlier @ territory # later"
    "chain \<in> set (snd (territory_body ui limits region area distributor territory
        (fold (territory_body ui limits region area distributor) earlier (s2, snd st0))))"
    "chain \<notin> set (snd (fold (territory_body ui limits region area distributor) earlier
        (s2, snd st0)))"
    by blast
  then have "at_territory ui limits region area distributor st0 earlier territory later
        (fold (territory_body ui limits region area distributor) earlier (s2, snd st0)) \<and>
      chain \<in> set (snd (territory_body ui limits region area distributor territory
        (fold (territory_body ui limits region area distributor) earlier (s2, snd st0)))) \<and>
      chain \<notin> set (snd (fold (territory_body ui limits region area distributor) earlier
        (s2, snd st0)))"
    by (simp add: at_territory_def)
  then show ?thesis by blast
qed

lemma territory_body_origin:
  assumes "chain \<in> set (snd (territory_body ui limits region area distributor territory st0))"
    and "chain \<notin> set (snd st0)"
  shows "\<exists>point. at_point ui limits region area distributor territory st0 point \<and>
           chain = mk_chain region area distributor territory point"
proof (cases "reapply ui [(''Filter by Region'', region), (''Filter by Area'', area),
              (''Filter by Distribution house'', distributor),
              (''Filter by Territory'', territory)] (fst st0)")
  case (Pair ok s1)
  show ?thesis
  proof (cases ok)
    case False
    with Pair assms show ?thesis by (simp add: territory_body_def)
  next
    case True
    obtain points s2 where q: "get_dropdown_options ui ''Filter by Point'' s1 = (points, s2)"
      by (cases "get_dropdown_options ui ''Filter by Point'' s1")
    have "snd (territory_body ui limits region area distributor territory st0) =
        snd st0 @ map (mk_chain region area distributor territory)
          (apply_limit (limits ''point'') points)"
      by (simp add: territory_body_def Pair True q)
    with assms obtain point where
      "point \<in> set (apply_limit (limits ''point'') points)"
      "chain = mk_chain region area distributor territory point"
      by auto
    then have "at_point ui limits region area distributor territory st0 point \<and>
        chain = mk_chain region area distributor territory point"
      by (simp add: at_point_def Pair True q)
    then show ?thesis by blast
  qed
qed

lemma explore_origin:
  assumes "chain \<in> set (build_complete_filter_chains ui limits s)"
  shows "\<exists>earlier region later st.
           at_region ui limits s earlier region later st \<and>
           chain \<in> set (snd (region_body ui limits region st)) \<and> chain \<notin> set (snd st)"
proof -
  obtain regions s1 where
    q: "get_dropdown_options ui ''Filter by Region'' (clear_all_filters ui s) = (regions, s1)"
    by (cases "get_dropdown_options ui ''Filter by Region'' (clear_all_filters ui s)")
  have "explore ui limits s =
      fold (region_body ui limits) (apply_limit (limits ''region'') regions) (s1, [])"
    by (simp add: explore_def q Let_def)
  with assms have "chain \<in> set (snd (fold (region_body ui limits)
      (apply_limit (limits ''region'') regions) (s1, [])))"
    by (simp add: build_complete_filter_chains_def)
  moreover have "chain \<notin> set (snd (s1, [] :: pydict list))"
    by simp
  ultimately obtain earlier region later where
    "apply_limit (limits ''region'') regions = earlier @ region # later"
    "chain \<in> set (snd (region_body ui limits region
        (fold (region_body ui limits) earlier (s1, []))))"
    "chain \<notin> set (snd (fold (region_body ui limits) earlier (s1, [])))"
    using fold_origin [of chain "region_body ui limits"
        "apply_limit (limits ''region'') regions" "(s1, [])"] by blast
  then have "at_region ui limits s earlier region later
        (fold (region_body ui limits) earlier (s1, [])) \<and>
      chain \<in> set (snd (region_body ui limits region
        (fold (region_body ui limits) earlier (s1, [])))) \<and>
      chain \<notin> set (snd (fold (region_body ui limits) earlier (s1, [])))"
    by (simp add: at_region_def q)
  then show ?thesis by blast
qed

lemma build_origin:
  assumes "chain \<in> set (build_complete_filter_chains ui limits s)"
  shows "\<exists>region area distributor territory point
           earlier_regions later_regions st_region earlier_areas later_areas st_area
           earlier_distributors later_distributors st_distributor
           earlier_territories later_territories st_territory.
           chain = mk_chain region area distributor territory point \<and>
           at_region ui limits s earlier_regions region later_regions st_region \<and>
           at_area ui limits region st_region earlier_areas area later_areas st_area \<and>
           at_distributor ui limits region area st_area earlier_distributors distributor
             later_distributors st_distributor \<and>
           at_territory ui limits region area distributor st_distributor earlier_territories
             territory later_territories st_territory \<and>
           at_point ui limits region area distributor territory st_territory point"
proof -
  from explore_origin [OF assms] obtain earlier_regions region later_regions st_region where
    r: "at_region ui limits s earlier_regions region later_regions st_region"
    and r1: "chain \<in> set (snd (region_body ui limits region st_region))"
    and r2: "chain \<notin> set (snd st_region)"
    by blast
  from region_body_origin [OF r1 r2] obtain earlier_areas area later_areas st_area where
    a: "at_area ui limits region st_region earlier_areas area later_areas st_area"
    and a1: "chain \<in> set (snd (area_body ui limits region area st_area))"
    and a2: "chain \<notin> set (snd st_area)"
    by blast
  from area_body_origin [OF a1 a2]
  obtain earlier_distributors distributor later_distributors st_distributor where
    d: "at_distributor ui limits region area st_area earlier_distributors distributor
          later_distributors st_distributor"
    and d1: "chain \<in> set (snd (distributor_body ui limits region area distributor st_distributor))"
    and d2: "chain \<notin> set (snd st_distributor)"
    by blast
  from distributor_body_origin [OF d1 d2]
  obtain earlier_territories territory later_territories st_territory where
    t: "at_territory ui limits region area distributor st_distributor earlier_territories
          territory later_territories st_territory"
    and t1: "chain \<in> set (snd (territory_body ui limits region area distributor territory
          st_territory))"
    and t2: "chain \<notin> set (snd st_territory)"
    by blast
  from territory_body_origin [OF t1 t2] obtain point where
    p: "at_point ui limits region area distributor territory st_territory point"
    and c: "chain = mk_chain region area distributor territory point"
    by blast
  from c r a d t p show ?thesis by blast
qed

lemma capped_position:
  assumes "0 < k" and "apply_limit (Some k) options = earlier @ v # later"
  shows "length earlier < nat k \<and> length earlier < length options \<and>
         options ! length earlier = v \<and> take (nat k) options = earlier @ v # later"
proof -
  from assms have t: "take (nat k) options = earlier @ v # later"
    by (simp add: apply_limit_cap)
  then have "length (take (nat k) options) = length earlier + 1 + length later"
    by simp
  then have l: "length earlier < nat k" "length earlier < length options"
    by simp_all
  have "take (nat k) options ! length earlier = v"
    unfolding t by simp
  with l have "options ! length earlier = v"
    by simp
  with l t show ?thesis by simp
qed

lemma regions_explored_cap:
  assumes "limits ''region'' = Some k" "0 < k"
  shows "regions_explored ui limits s =
           take (nat k) (fst (get_dropdown_options ui ''Filter by Region'' (clear_all_filters ui s)))"
  by (simp add: regions_explored_def assms apply_limit_cap)

text \<open>
  C4. Let every dimension have a size: the cap \<open>k\<close> where \<^verbatim>\<open>FILTER_LIMITS\<close> sets a
  positive cap, else a bound on the option list of its dropdown in every state of the page.
  Then \<^verbatim>\<open>build_complete_filter_chains\<close> returns at most the product of the five sizes
  many chains. The outer loop runs over the capped options of the region dropdown, in their
  order: with a cap \<open>k\<close> these are its first \<open>k\<close> options, at most \<open>k\<close> regions (at
  most 2 for a cap of 2). Every chain returned was built in one run through the five loops:
  the loop over the regions came to the chain's region, the loop over the areas read in the
  body of this region came to the chain's area, and so on down to the chain's point, each
  loop running over the options read in that very body, after the cap. Where a positive cap
  \<open>k\<close> is set, an option a loop comes to is one of the first \<open>k\<close> options of the list
  read, at the place it has in this list.
\<close>

theorem cap_enforcement:
  assumes "cap_or_domain ui limits ''region'' ''Filter by Region'' n_region"
    and "cap_or_domain ui limits ''area'' ''Filter by Area'' n_area"
    and "cap_or_domain ui limits ''distributor'' ''Filter by Distribution house'' n_distributor"
    and "cap_or_domain ui limits ''territory'' ''Filter by Territory'' n_territory"
    and "cap_or_domain ui limits ''point'' ''Filter by Point'' n_point"
  shows
    "length (build_complete_filter_chains ui limits s)
       \<le> n_region * n_area * n_distributor * n_territory * n_point
   \<and> build_complete_filter_chains ui limits s =
       snd (fold (region_body ui limits) (regions_explored ui limits s)
              (snd (get_dropdown_options ui ''Filter by Region'' (clear_all_filters ui s)), []))
   \<and> (\<forall>chain \<in> set (build_complete_filter_chains ui limits s).
        \<exists>region area distributor territory point
          earlier_regions later_regions st_region earlier_areas later_areas st_area
          earlier_distributors later_distributors st_distributor
          earlier_territories later_territories st_territory.
          chain = mk_chain region area distributor territory point \<and>
          at_region ui limits s earlier_regions region later_regions st_region \<and>
          at_area ui limits region st_region earlier_areas area later_areas st_area \<and>
          at_distributor ui limits region area st_area earlier_distributors distributor
            later_distributors st_distributor \<and>
          at_territory ui limits region area distributor st_distributor earlier_territories
            territory later_territories st_territory \<and>
          at_point ui limits region area distributor territory st_territory point)
   \<and> (\<forall>k. limits ''region'' = Some k \<longrightarrow> 0 < k \<longrightarrow>
        regions_explored ui limits s =
          take (nat k) (fst (get_dropdown_options ui ''Filter by Region'' (clear_all_filters ui s)))
        \<and> length (regions_explored ui limits s) \<le> nat k)
   \<and> (limits ''region'' = Some 2 \<longrightarrow> length (regions_explored ui limits s) \<le> 2)
   \<and> (\<forall>k (options :: string list) earlier v later.
        0 < k \<longrightarrow> apply_limit (Some k) options = earlier @ v # later \<longrightarrow>
        length earlier < nat k \<and> length earlier < length options \<and>
        options ! length earlier = v \<and> take (nat k) options = earlier @ v # later)
   \<and> (\<forall>k (options :: string list). 0 < k \<longrightarrow> apply_limit (Some k) options = take (nat k) options)"
proof -
  have len: "length (build_complete_filter_chains ui limits s)
       \<le> n_region * n_area * n_distributor * n_territory * n_point"
    using assms by (rule build_length)
  have run: "build_complete_filter_chains ui limits s =
       snd (fold (region_body ui limits) (regions_explored ui limits s)
              (snd (get_dropdown_options ui ''Filter by Region'' (clear_all_filters ui s)), []))"
    by (simp add: build_complete_filter_chains_def explore_eq)
  have cap: "\<forall>k. limits ''region'' = Some k \<longrightarrow> 0 < k \<longrightarrow>
        regions_explored ui limits s =
          take (nat k) (fst (get_dropdown_options ui ''Filter by Region'' (clear_all_filters ui s)))
        \<and> length (regions_explored ui limits s) \<le> nat k"
  proof (intro allI impI)
    fix k :: int
    assume "limits ''region'' = Some k" "0 < k"
    then show "regions_explored ui limits s =
          take (nat k) (fst (get_dropdown_options ui ''Filter by Region'' (clear_all_filters ui s)))
        \<and> length (regions_explored ui limits s) \<le> nat k"
      using regions_explored_cap [of limits k ui s] by simp
  qed
  have two: "limits ''region'' = Some 2 \<longrightarrow> length (regions_explored ui limits s) \<le> 2"
  proof
    assume "limits ''region'' = Some 2"
    then show "length (regions_explored ui limits s) \<le> 2"
      using regions_explored_cap [of limits 2 ui s] by simp
  qed
  have pos: "\<forall>k (options :: string list) earlier v later.
        0 < k \<longrightarrow> apply_limit (Some k) options = earlier @ v # later \<longrightarrow>
        length earlier < nat k \<and> length earlier < length options \<and>
        options ! length earlier = v \<and> take (nat k) options = earlier @ v # later"
    by (intro allI impI) (rule capped_position)
  have cut: "\<forall>k (options :: string list). 0 < k \<longrightarrow>
        apply_limit (Some k) options = take (nat k) options"
    by (intro allI impI) (rule apply_limit_cap)
  have chains: "\<forall>chain \<in> set (build_complete_filter_chains ui limits s).
        \<exists>region area distributor territory point
          earlier_regions later_regions st_region earlier_areas later_areas st_area
          earlier_distributors later_distributors st_distributor
          earlier_territories later_territories st_territory.
          chain = mk_chain region area distributor territory point \<and>
          at_region ui limits s earlier_regions region later_regions st_region \<and>
          at_area ui limits region st_region earlier_areas area later_areas st_area \<and>
          at_distributor ui limits region area st_area earlier_distributors distributor
            later_distributors st_distributor \<and>
          at_territory ui limits region area distributor st_distributor earlier_territories
            territory later_territories st_territory \<and>
          at_point ui limits region area distributor territory st_territory point"
    by (rule ballI) (rule build_origin)
  from len run chains cap two pos cut show ?thesis
    by (intro conjI)
qed

lemma three_region_ui_options:
  "fst (get_dropdown_options three_region_ui dropdown_name s) =
     fold option_step (three_region_options dropdown_name s) []"
  by (simp add: get_dropdown_options_def three_region_ui_def)

theorem cap_enforcement_witness:
  "length (build_complete_filter_chains three_region_ui (no_limits(''region'' := Some 2, ''area'' := Some 1)) [])
      \<le> 2 * 1 * 1 * 1 * 1
   \<and> build_complete_filter_chains three_region_ui (no_limits(''region'' := Some 2, ''area'' := Some 1)) [] =
      [mk_chain ''R1'' ''A1'' ''D1'' ''T1'' ''P1'', mk_chain ''R2'' ''A9'' ''D1'' ''T1'' ''P1'']
   \<and> regions_explored three_region_ui (no_limits(''region'' := Some 2, ''area'' := Some 1)) [] =
      [''R1'', ''R2'']
   \<and> at_area three_region_ui (no_limits(''region'' := Some 2, ''area'' := Some 1)) ''R2''
        ([(''Filter by Region'', 0), (''Filter by Area'', 0), (''Filter by Distribution house'', 0),
          (''Filter by Territory'', 0)],
         [mk_chain ''R1'' ''A1'' ''D1'' ''T1'' ''P1''])
        [] ''A9'' []
        ([(''Filter by Region'', 1)], [mk_chain ''R1'' ''A1'' ''D1'' ''T1'' ''P1''])"
proof -
  let ?limits = "no_limits(''region'' := Some 2, ''area'' := Some 1)"
  have r: "cap_or_domain three_region_ui ?limits ''region'' ''Filter by Region'' 2"
    by (simp add: cap_or_domain_def)
  have a: "cap_or_domain three_region_ui ?limits ''area'' ''Filter by Area'' 1"
    by (simp add: cap_or_domain_def)
  have "length (fold option_step [shown ''D1''] []) \<le> 1"
    by code_simp
  then have d: "cap_or_domain three_region_ui ?limits ''distributor'' ''Filter by Distribution house'' 1"
    by (simp add: cap_or_domain_def domain_bound_def three_region_ui_options no_limits_def
        three_region_options_def)
  have "length (fold option_step [shown ''T1''] []) \<le> 1"
    by code_simp
  then have t: "cap_or_domain three_region_ui ?limits ''territory'' ''Filter by Territory'' 1"
    by (simp add: cap_or_domain_def domain_bound_def three_region_ui_options no_limits_def
        three_region_options_def)
  have "length (fold option_step [shown ''P1''] []) \<le> 1"
    by code_simp
  then have p: "cap_or_domain three_region_ui ?limits ''point'' ''Filter by Point'' 1"
    by (simp add: cap_or_domain_def domain_bound_def three_region_ui_options no_limits_def
        three_region_options_def)
  have run: "snd (fold (region_body three_region_ui ?limits) (regions_explored three_region_ui ?limits [])
      (snd (get_dropdown_options three_region_ui ''Filter by Region''
         (clear_all_filters three_region_ui [])), [])) =
      [mk_chain ''R1'' ''A1'' ''D1'' ''T1'' ''P1'', mk_chain ''R2'' ''A9'' ''D1'' ''T1'' ''P1'']"
    by code_simp
  have area: "at_area three_region_ui ?limits ''R2''
        ([(''Filter by Region'', 0), (''Filter by Area'', 0), (''Filter by Distribution house'', 0),
          (''Filter by Territory'', 0)],
         [mk_chain ''R1'' ''A1'' ''D1'' ''T1'' ''P1''])
        [] ''A9'' []
        ([(''Filter by Region'', 1)], [mk_chain ''R1'' ''A1'' ''D1'' ''T1'' ''P1''])"
    by code_simp
  note inst = cap_enforcement [OF r a d t p, of "[]"]
  from inst have len: "length (build_complete_filter_chains three_region_ui ?limits [])
      \<le> 2 * 1 * 1 * 1 * 1"
    by (rule conjunct1)
  from inst have "build_complete_filter_chains three_region_ui ?limits [] =
      snd (fold (region_body three_region_ui ?limits) (regions_explored three_region_ui ?limits [])
        (snd (get_dropdown_options three_region_ui ''Filter by Region''
           (clear_all_filters three_region_ui [])), []))"
    by (rule conjunct2 [THEN conjunct1])
  then have built: "build_complete_filter_chains three_region_ui ?limits [] =
      [mk_chain ''R1'' ''A1'' ''D1'' ''T1'' ''P1'', mk_chain ''R2'' ''A9'' ''D1'' ''T1'' ''P1'']"
    unfolding run .
  have "take (nat 2) (fst (get_dropdown_options three_region_ui ''Filter by Region''
      (clear_all_filters three_region_ui []))) = [''R1'', ''R2'']"
    by code_simp
  moreover have "?limits ''region'' = Some 2" "(0 :: int) < 2"
    by simp_all
  ultimately have regions: "regions_explored three_region_ui ?limits [] = [''R1'', ''R2'']"
    using inst [THEN conjunct2, THEN conjunct2, THEN conjunct2, THEN conjunct1, rule_format, of 2]
    by simp
  show ?thesis
    using len built regions area by simp
qed


section \<open>Rows not seen before\<close>

lemma set_fresh: "set (fresh seen rs) = set rs - seen"
  by (induction rs arbitrary: seen) auto

lemma distinct_fresh: "distinct (fresh seen rs)"
  by (induction rs arbitrary: seen) (auto simp: set_fresh)

lemma fresh_all_seen: "set rs \<subseteq> seen \<Longrightarrow> fresh seen rs = []"
  by (induction rs arbitrary: seen) auto

lemma add_unseen_fold:
  "fold add_unseen rows (acc, seen) = (acc @ fresh seen rows, seen \<union> set rows)"
proof (induction rows arbitrary: acc seen)
  case Nil
  show ?case by simp
next
  case (Cons r rows)
  show ?case
  proof (cases "r \<in> seen")
    case True
    then have "add_unseen r (acc, seen) = (acc, seen)"
      by (simp add: add_unseen_def)
    then show ?thesis using True by (auto simp: Cons.IH)
  next
    case False
    then have "add_unseen r (acc, seen) = (acc @ [r], insert r seen)"
      by (simp add: add_unseen_def)
    then show ?thesis using False by (auto simp: Cons.IH)
  qed
qed

section \<open>The last pagination button\<close>

lemma last_step_label:
  "last_step (i, btn) found =
     (case page_label btn of
        None \<Rightarrow> found
      | Some text \<Rightarrow>
          (case found of
             None \<Rightarrow> Some (text, i)
           | Some (l, j) \<Rightarrow> if py_int text > py_int l then Some (text, i) else found))"
proof (cases "is_visible btn")
  case None
  then show ?thesis by (simp add: last_step_def page_label_def)
next
  case (Some v)
  note vis = this
  show ?thesis
  proof (cases v)
    case False
    then show ?thesis using vis by (simp add: last_step_def page_label_def)
  next
    case True
    show ?thesis
    proof (cases "inner_text btn")
      case None
      then show ?thesis using vis True by (simp add: last_step_def page_label_def)
    next
      case (Some t)
      then show ?thesis using vis True
        by (simp add: last_step_def page_label_def Let_def split: option.split prod.split)
    qed
  qed
qed

lemma find_last_page_snoc:
  "find_last_page (bs @ [b]) = last_step (length bs, b) (find_last_page bs)"
  by (simp add: find_last_page_def enumerate_append_eq)

lemma highest_page_step:
  assumes "highest_page bs found"
  shows "highest_page (bs @ [b]) (last_step (length bs, b) found)"
proof (cases "page_label b")
  case None
  have "last_step (length bs, b) found = found"
    by (simp add: last_step_label None)
  moreover have "highest_page (bs @ [b]) found"
  proof (cases found)
    case None
    then show ?thesis using assms \<open>page_label b = None\<close> by (simp add: highest_page_def)
  next
    case (Some ti)
    obtain best i where ti: "ti = (best, i)" by (cases ti)
    from assms have i: "i < length bs" and lab: "page_label (bs ! i) = Some best"
      and mx: "\<And>j l. j < length bs \<Longrightarrow> page_label (bs ! j) = Some l \<Longrightarrow> py_int l \<le> py_int best"
      and lower: "\<And>j l. j < i \<Longrightarrow> page_label (bs ! j) = Some l \<Longrightarrow> py_int l < py_int best"
      by (auto simp: highest_page_def Some ti)
    have "py_int l \<le> py_int best" if "j < length (bs @ [b])" "page_label ((bs @ [b]) ! j) = Some l" for j l
    proof (cases "j < length bs")
      case True
      then show ?thesis using that mx by (simp add: nth_append)
    next
      case False
      with that have "j = length bs" by simp
      then show ?thesis using that \<open>page_label b = None\<close> by simp
    qed
    moreover have "py_int l < py_int best" if "j < i" "page_label ((bs @ [b]) ! j) = Some l" for j l
      using that lower i by (simp add: nth_append)
    ultimately show ?thesis
      using i lab by (simp add: highest_page_def Some ti nth_append)
  qed
  ultimately show ?thesis by simp
next
  case (Some new)
  show ?thesis
  proof (cases found)
    case None
    then have ls: "last_step (length bs, b) found = Some (new, length bs)"
      by (simp add: last_step_label Some)
    from assms None have none: "\<And>j. j < length bs \<Longrightarrow> page_label (bs ! j) = None"
      by (simp add: highest_page_def)
    have "py_int l \<le> py_int new" if "j < length (bs @ [b])" "page_label ((bs @ [b]) ! j) = Some l" for j l
    proof (cases "j < length bs")
      case True
      then show ?thesis using that none by (simp add: nth_append)
    next
      case False
      with that have "j = length bs" by simp
      then show ?thesis using that Some by simp
    qed
    moreover have "py_int l < py_int new" if "j < length bs" "page_label ((bs @ [b]) ! j) = Some l" for j l
      using that none by (simp add: nth_append)
    ultimately show ?thesis
      unfolding ls using Some by (simp add: highest_page_def)
  next
    case (Some ti)
    note found = this
    obtain best i where ti: "ti = (best, i)" by (cases ti)
    from assms have i: "i < length bs" and lab: "page_label (bs ! i) = Some best"
      and mx: "\<And>j l. j < length bs \<Longrightarrow> page_label (bs ! j) = Some l \<Longrightarrow> py_int l \<le> py_int best"
      and lower: "\<And>j l. j < i \<Longrightarrow> page_label (bs ! j) = Some l \<Longrightarrow> py_int l < py_int best"
      by (auto simp: highest_page_def found ti)
    show ?thesis
    proof (cases "py_int new > py_int best")
      case True
      then have ls: "last_step (length bs, b) found = Some (new, length bs)"
        by (simp add: last_step_label \<open>page_label b = Some new\<close> found ti)
      have "py_int l \<le> py_int new" if "j < length (bs @ [b])" "page_label ((bs @ [b]) ! j) = Some l" for j l
      proof (cases "j < length bs")
        case True
        then have "py_int l \<le> py_int best" using that mx by (simp add: nth_append)
        then show ?thesis using \<open>py_int new > py_int best\<close> by simp
      next
        case False
        with that have "j = length bs" by simp
        then show ?thesis using that \<open>page_label b = Some new\<close> by simp
      qed
      moreover have "py_int l < py_int new" if "j < length bs" "page_label ((bs @ [b]) ! j) = Some l" for j l
      proof -
        have "py_int l \<le> py_int best" using that mx by (simp add: nth_append)
        then show ?thesis using True by simp
      qed
      ultimately show ?thesis
        unfolding ls using \<open>page_label b = Some new\<close> by (simp add: highest_page_def)
    next
      case False
      then have ls: "last_step (length bs, b) found = found"
        by (simp add: last_step_label \<open>page_label b = Some new\<close> found ti)
      have "py_int l \<le> py_int best" if "j < length (bs @ [b])" "page_label ((bs @ [b]) ! j) = Some l" for j l
      proof (cases "j < length bs")
        case True
        then show ?thesis using that mx by (simp add: nth_append)
      next
        case False
        with that have "j = length bs" by simp
        then show ?thesis using that \<open>page_label b = Some new\<close> \<open>\<not> py_int new > py_int best\<close> by simp
      qed
      moreover have "py_int l < py_int best" if "j < i" "page_label ((bs @ [b]) ! j) = Some l" for j l
        using that lower i by (simp add: nth_append)
      ultimately show ?thesis
        unfolding ls using i lab by (simp add: highest_page_def found ti nth_append)
    qed
  qed
qed

lemma find_last_page_highest: "highest_page buttons (find_last_page buttons)"
proof (induction buttons rule: rev_induct)
  case Nil
  show ?case by (simp add: find_last_page_def highest_page_def)
next
  case (snoc b bs)
  show ?case
    unfolding find_last_page_snoc using snoc by (rule highest_page_step)
qed

lemma find_last_page_None:
  "find_last_page buttons = None \<longleftrightarrow> (\<forall>b \<in> set buttons. page_label b = None)"
proof
  assume "find_last_page buttons = None"
  then show "\<forall>b \<in> set buttons. page_label b = None"
    using find_last_page_highest [of buttons] by (simp add: highest_page_def)
next
  assume none: "\<forall>b \<in> set buttons. page_label b = None"
  show "find_last_page buttons = None"
  proof (cases "find_last_page buttons")
    case None
    then show ?thesis .
  next
    case (Some ti)
    obtain best i where ti: "ti = (best, i)" by (cases ti)
    from find_last_page_highest [of buttons]
    have "i < length buttons" "page_label (buttons ! i) = Some best"
      by (simp_all add: highest_page_def Some ti)
    with none show ?thesis by (metis nth_mem option.distinct(1))
  qed
qed

section \<open>The first and the last page\<close>

lemma sampled_no_controls:
  assumes "get_table_data ui (settle ui s) = (first_page_data, s1)"
    and "pagination_controls ui s1 = None"
  shows "get_first_and_last_page_data ui s = first_page_data"
  by (simp add: get_first_and_last_page_data_def assms)

lemma sampled_no_page_number:
  assumes "get_table_data ui (settle ui s) = (first_page_data, s1)"
    and "pagination_controls ui s1 = Some buttons"
    and "find_last_page buttons = None"
  shows "get_first_and_last_page_data ui s = first_page_data"
  by (simp add: get_first_and_last_page_data_def assms)

lemma sampled_navigation_raises:
  assumes "get_table_data ui (settle ui s) = (first_page_data, s1)"
    and "pagination_controls ui s1 = Some buttons"
    and "find_last_page buttons = Some (last_page_number, last_button_index)"
    and "go_to_last ui last_button_index s1 = None"
  shows "get_first_and_last_page_data ui s = first_page_data"
  by (simp add: get_first_and_last_page_data_def assms)

lemma sampled_two_pages:
  assumes "get_table_data ui (settle ui s) = (first_page_data, s1)"
    and "pagination_controls ui s1 = Some buttons"
    and "find_last_page buttons = Some (last_page_number, last_button_index)"
    and "go_to_last ui last_button_index s1 = Some s2"
    and "get_table_data ui (settle ui s2) = (last_page_data, s3)"
  shows "get_first_and_last_page_data ui s =
           first_page_data @ fresh (set first_page_data) last_page_data"
  by (simp add: get_first_and_last_page_data_def assms add_unseen_fold)

lemma union_fresh:
  "set (first @ fresh (set first) rows) = set first \<union> set rows"
  by (auto simp: set_fresh)

lemma distinct_union_fresh:
  "distinct (first @ fresh (set first) rows) \<longleftrightarrow> distinct first"
  by (auto simp: set_fresh distinct_fresh)

text \<open>
  C6. \<^verbatim>\<open>get_first_and_last_page_data\<close> reads the first page. Among the pagination
  buttons it finds the first one with the highest page number, looking at the visible
  buttons whose stripped label is a number. When there is no such button (or the buttons
  cannot be counted) it returns the records of the first page. Else it goes to that button;
  when this does not raise, it reads the page shown then and returns the first page as it
  was read, followed by the rows of the last page that are new, each once. As a set this is
  the union of the two pages; as a list it has a duplicate exactly when the first page
  itself shows a row twice, since the rows of the first page are never compared with each
  other. When going to the button raises, it returns the records of the first page.
\<close>

theorem first_and_last_page:
  assumes "get_table_data ui (settle ui s) = (first_page_data, s1)"
  shows
    "(pagination_controls ui s1 = None \<longrightarrow>
        get_first_and_last_page_data ui s = first_page_data)
   \<and> (\<forall>buttons. pagination_controls ui s1 = Some buttons \<longrightarrow>
        highest_page buttons (find_last_page buttons) \<and>
        ((\<forall>b \<in> set buttons. page_label b = None) \<longrightarrow>
           get_first_and_last_page_data ui s = first_page_data) \<and>
        (\<forall>last_page_number last_button_index.
           find_last_page buttons = Some (last_page_number, last_button_index) \<longrightarrow>
           (go_to_last ui last_button_index s1 = None \<longrightarrow>
              get_first_and_last_page_data ui s = first_page_data) \<and>
           (\<forall>s2 last_page_data s3.
              go_to_last ui last_button_index s1 = Some s2 \<longrightarrow>
              get_table_data ui (settle ui s2) = (last_page_data, s3) \<longrightarrow>
              get_first_and_last_page_data ui s =
                first_page_data @ fresh (set first_page_data) last_page_data \<and>
              set (get_first_and_last_page_data ui s) =
                set first_page_data \<union> set last_page_data \<and>
              (distinct (get_first_and_last_page_data ui s) \<longleftrightarrow>
                 distinct first_page_data))))"
proof (intro conjI allI impI)
  assume "pagination_controls ui s1 = None"
  with assms show "get_first_and_last_page_data ui s = first_page_data"
    by (rule sampled_no_controls)
next
  fix buttons
  show "highest_page buttons (find_last_page buttons)"
    by (rule find_last_page_highest)
next
  fix buttons
  assume "pagination_controls ui s1 = Some buttons" "\<forall>b \<in> set buttons. page_label b = None"
  then show "get_first_and_last_page_data ui s = first_page_data"
    using assms by (simp add: sampled_no_page_number find_last_page_None)
next
  fix buttons last_page_number last_button_index
  assume "pagination_controls ui s1 = Some buttons"
    "find_last_page buttons = Some (last_page_number, last_button_index)"
    "go_to_last ui last_button_index s1 = None"
  with assms show "get_first_and_last_page_data ui s = first_page_data"
    by (rule sampled_navigation_raises)
next
  fix buttons last_page_number last_button_index s2 last_page_data s3
  assume a: "pagination_controls ui s1 = Some buttons"
    "find_last_page buttons = Some (last_page_number, last_button_index)"
    "go_to_last ui last_button_index s1 = Some s2"
    "get_table_data ui (settle ui s2) = (last_page_data, s3)"
  show r: "get_first_and_last_page_data ui s =
      first_page_data @ fresh (set first_page_data) last_page_data"
    using assms a by (rule sampled_two_pages)
  show "set (get_first_and_last_page_data ui s) = set first_page_data \<union> set last_page_data"
    unfolding r by (rule union_fresh)
  show "distinct (get_first_and_last_page_data ui s) \<longleftrightarrow> distinct first_page_data"
    unfolding r by (rule distinct_union_fresh)
qed

theorem first_and_last_page_witness:
  "get_table_data example_table (settle example_table 0) =
     ([shop ''Shop A'' ''R001'', shop ''Shop B'' ''R002'', shop ''Shop C'' ''R003''], 0)
   \<and> find_last_page [shown ''Previous'', shown ''1'', shown ''2'', shown ''Next''] = Some (''2'', 2)
   \<and> get_first_and_last_page_data example_table 0 =
       [shop ''Shop A'' ''R001'', shop ''Shop B'' ''R002'', shop ''Shop C'' ''R003'',
        shop ''Shop D'' ''R004'']"
proof -
  have first: "get_table_data example_table (settle example_table 0) =
     ([shop ''Shop A'' ''R001'', shop ''Shop B'' ''R002'', shop ''Shop C'' ''R003''], 0)"
    by code_simp
  have buttons: "pagination_controls example_table 0 =
      Some [shown ''Previous'', shown ''1'', shown ''2'', shown ''Next'']"
    by (simp add: example_table_def)
  have found: "find_last_page [shown ''Previous'', shown ''1'', shown ''2'', shown ''Next''] =
      Some (''2'', 2)"
    by code_simp
  have go: "go_to_last example_table 2 0 = Some 1"
    by code_simp
  have last: "get_table_data example_table (settle example_table 1) =
     ([shop ''Shop C'' ''R003'', shop ''Shop D'' ''R004''], 1)"
    by code_simp
  have new: "fresh (set [shop ''Shop A'' ''R001'', shop ''Shop B'' ''R002'', shop ''Shop C'' ''R003''])
      [shop ''Shop C'' ''R003'', shop ''Shop D'' ''R004''] = [shop ''Shop D'' ''R004'']"
    by code_simp
  from first_and_last_page [OF first]
  have "get_first_and_last_page_data example_table 0 =
      [shop ''Shop A'' ''R001'', shop ''Shop B'' ''R002'', shop ''Shop C'' ''R003''] @
      fresh (set [shop ''Shop A'' ''R001'', shop ''Shop B'' ''R002'', shop ''Shop C'' ''R003''])
        [shop ''Shop C'' ''R003'', shop ''Shop D'' ''R004'']"
    using buttons found go last by blast
  then show ?thesis
    unfolding new using first found by simp
qed

text \<open>
  On the view whose first page shows the row of Shop A twice, the list returned holds that
  row twice: the two pages are not returned free of duplicates.
\<close>

theorem first_page_repeats_kept:
  "get_first_and_last_page_data repeated_row_table 0 =
     [shop ''Shop A'' ''R001'', shop ''Shop A'' ''R001'', shop ''Shop C'' ''R003'',
      shop ''Shop D'' ''R004'']
   \<and> \<not> distinct (get_first_and_last_page_data repeated_row_table 0)"
proof -
  have "get_first_and_last_page_data repeated_row_table 0 =
     [shop ''Shop A'' ''R001'', shop ''Shop A'' ''R001'', shop ''Shop C'' ''R003'',
      shop ''Shop D'' ''R004'']"
    by code_simp
  then show ?thesis by simp
qed


section \<open>The exhaustive collector\<close>

lemma take_page_all_seen:
  "set new_data \<subseteq> seen_data st \<Longrightarrow> take_page new_data st = (False, st)"
  by (auto simp: take_page_def list_all_iff)

lemma take_page_cases:
  obtains (taken) "new_data \<noteq> []" "\<not> set new_data \<subseteq> seen_data st"
      "take_page new_data st =
         (True, st\<lparr>all_data := all_data st @ new_data,
                    seen_data := seen_data st \<union> set new_data\<rparr>)"
  | (left) "take_page new_data st = (False, st)"
  by (cases "new_data \<noteq> [] \<and> \<not> list_all (\<lambda>d. d \<in> seen_data st) new_data")
    (auto simp: take_page_def list_all_iff)

lemma numbered_step_unmoved:
  assumes "snd (numbered_step ui i (st, m)) = False"
  shows "m = False \<and> all_data (fst (numbered_step ui i (st, m))) = all_data st"
proof (cases "is_visible (role_button ui (page st) i)")
  case None
  then show ?thesis using assms by (simp add: numbered_step_def)
next
  case (Some v)
  note vis = this
  show ?thesis
  proof (cases v)
    case False
    then show ?thesis using assms vis by (simp add: numbered_step_def)
  next
    case True
    note v = this
    show ?thesis
    proof (cases "inner_text (role_button ui (page st) i)")
      case None
      then show ?thesis using assms vis v by (simp add: numbered_step_def)
    next
      case (Some t)
      note label = this
      show ?thesis
      proof (cases "py_isdigit (py_strip t) \<and> py_strip t \<notin> visited_pages st")
        case False
        then show ?thesis using assms vis v label by (auto simp: numbered_step_def Let_def)
      next
        case True
        define st1 where "st1 = st\<lparr>visited_pages := insert (py_strip t) (visited_pages st)\<rparr>"
        obtain ok s1 where click: "click_button ui i (page st1) = (ok, s1)"
          by (cases "click_button ui i (page st1)")
        show ?thesis
        proof (cases ok)
          case False
          have "numbered_step ui i (st, m) = (st1\<lparr>page := s1\<rparr>, m)"
            using vis v label True click False
            by (simp add: numbered_step_def Let_def st1_def)
          then show ?thesis using assms by (simp add: st1_def)
        next
          case ok: True
          obtain new_data s2 where rd: "get_table_data ui (settle ui s1) = (new_data, s2)"
            by (cases "get_table_data ui (settle ui s1)")
          have step: "numbered_step ui i (st, m) =
              (case take_page new_data (st1\<lparr>page := s2\<rparr>) of
                 (True, st2) \<Rightarrow> (st2, True)
               | (False, st2) \<Rightarrow> (st2, m))"
            using vis v label True click ok rd
            by (simp add: numbered_step_def Let_def st1_def)
          show ?thesis
          proof (cases rule: take_page_cases [of new_data "st1\<lparr>page := s2\<rparr>"])
            case taken
            then show ?thesis using assms step by simp
          next
            case left
            then show ?thesis using assms step by (simp add: st1_def)
          qed
        qed
      qed
    qed
  qed
qed

lemma fold_numbered_unmoved:
  assumes "snd (fold (numbered_step ui) indices (st, m)) = False"
  shows "m = False \<and> all_data (fst (fold (numbered_step ui) indices (st, m))) = all_data st"
  using assms
proof (induction indices arbitrary: st m)
  case Nil
  then show ?case by simp
next
  case (Cons i indices)
  obtain st1 m1 where step: "numbered_step ui i (st, m) = (st1, m1)"
    by (cases "numbered_step ui i (st, m)")
  from Cons.prems have "snd (fold (numbered_step ui) indices (st1, m1)) = False"
    by (simp add: step)
  from Cons.IH [OF this]
  have m1: "m1 = False"
    and final: "all_data (fst (fold (numbered_step ui) indices (st1, m1))) = all_data st1"
    by auto
  have unfold: "fold (numbered_step ui) (i # indices) (st, m) =
      fold (numbered_step ui) indices (st1, m1)"
    by (simp add: step)
  from m1 step have "snd (numbered_step ui i (st, m)) = False" by simp
  from numbered_step_unmoved [OF this]
  have "m = False" and "all_data st1 = all_data st" by (simp_all add: step)
  then show ?case unfolding unfold using final by simp
qed

lemma numbered_pass_unmoved:
  assumes "snd (numbered_pass ui st) = False"
  shows "all_data (fst (numbered_pass ui st)) = all_data st"
proof (cases "role_button_count ui (page st)")
  case None
  then show ?thesis by (simp add: numbered_pass_def)
next
  case (Some n)
  with assms have "snd (fold (numbered_step ui) [0..<n] (st, False)) = False"
    by (simp add: numbered_pass_def)
  from fold_numbered_unmoved [OF this] show ?thesis
    by (simp add: numbered_pass_def Some)
qed

lemma pages_loop_nothing_new:
  assumes "advance_next ui (page st) = (True, s1)"
    and "get_table_data ui (settle ui s1) = (new_data, s2)"
    and "set new_data \<subseteq> seen_data st"
    and "snd (numbered_pass ui (st\<lparr>page := s2\<rparr>)) = False"
  shows "pages_loop (Suc fuel) ui st = Some (all_data st)"
proof -
  have tp: "take_page new_data (st\<lparr>page := s2\<rparr>) = (False, st\<lparr>page := s2\<rparr>)"
    using assms(3) by (simp add: take_page_all_seen)
  obtain st2 moved where np: "numbered_pass ui (st\<lparr>page := s2\<rparr>) = (st2, moved)"
    by (cases "numbered_pass ui (st\<lparr>page := s2\<rparr>)")
  with assms(4) have "moved = False" by simp
  moreover from numbered_pass_unmoved [OF assms(4)] np have "all_data st2 = all_data st"
    by simp
  ultimately show ?thesis
    by (simp add: assms(1,2) tp np)
qed

section \<open>Reading the same rows again\<close>

text \<open>
  A page whose rows have all been seen adds nothing, in either collector: the exhaustive one
  leaves its list as it is, and the sampled one appends none of the rows.
\<close>

lemma reread_adds_nothing:
  assumes "set new_data \<subseteq> seen_data st" and "set last_page_data \<subseteq> set first_page_data"
  shows "all_data (snd (take_page new_data st)) = all_data st"
    and "fst (fold add_unseen last_page_data (first_page_data, set first_page_data)) =
           first_page_data"
  using assms by (simp_all add: take_page_all_seen add_unseen_fold fresh_all_seen)

lemma stuck_table_pages:
  "get_all_pages_data 5 stuck_table 0 =
     Some [shop ''Shop A'' ''R001'', shop ''Shop B'' ''R002'', shop ''Shop C'' ''R003'']"
  "get_first_and_last_page_data stuck_table 0 =
     [shop ''Shop A'' ''R001'', shop ''Shop B'' ''R002'', shop ''Shop C'' ''R003'']"
  by code_simp+


text \<open>
  C2. On the example view, two pages that share one row, \<^verbatim>\<open>get_all_pages_data\<close>
  returns five records, the shared one twice: the returned list is not free of duplicates.
\<close>

theorem exhaustive_returns_duplicate:
  "get_all_pages_data 5 example_table 0 =
     Some [shop ''Shop A'' ''R001'', shop ''Shop B'' ''R002'', shop ''Shop C'' ''R003'',
           shop ''Shop C'' ''R003'', shop ''Shop D'' ''R004'']
   \<and> \<not> distinct [shop ''Shop A'' ''R001'', shop ''Shop B'' ''R002'', shop ''Shop C'' ''R003'',
           shop ''Shop C'' ''R003'', shop ''Shop D'' ''R004'']"
proof -
  have "get_all_pages_data 5 example_table 0 =
     Some [shop ''Shop A'' ''R001'', shop ''Shop B'' ''R002'', shop ''Shop C'' ''R003'',
           shop ''Shop C'' ''R003'', shop ''Shop D'' ''R004'']"
    by code_simp
  then show ?thesis by simp
qed


end
